theory Spec2Isabelle
  imports Complex_Main "HOL-Library.Multiset" "HOL-Library.Sublist" "HOL-Library.Log_Nat"
begin

section \<open>Data model (config/schema.ts)\<close>

text \<open>
  JavaScript numbers are modelled as exact numbers: status codes, counters and indices
  as \<open>int\<close> or \<open>nat\<close>, durations, instants, weights and latencies as \<open>real\<close>
  (floating-point rounding is not modelled). An optional field \<open>f?: T\<close> is a
  \<open>T option\<close>; \<open>a ?? b\<close> is \<open>nullish a b\<close> and \<open>p?.f\<close> is \<open>Option.bind p f\<close>.
\<close>

datatype Strategy = sequential | round_robin | random | weighted | priority

record TargetModel =
  model :: string
  provider :: string
  weight :: "real option"

datatype FallbackItem = Status int | any_error

datatype BackoffType = exponential | linear | fixed

record Backoff =
  backoff_type :: BackoffType
  backoff_initial :: string
  backoff_multiplier :: "real option"
  backoff_max :: "string option"

datatype OnFail = throw | continue_with_next

text \<open>
  The interface declares \<open>max_retries\<close> and \<open>fallback_on\<close> of a profile as required, but
  the configuration document is cast, not checked, and every reader guards them with
  \<open>??\<close>; so they are optional here.
\<close>

record StrategyProfile =
  max_retries :: "int option"
  timeout :: "string option"
  backoff :: "Backoff option"
  fallback_on :: "FallbackItem list option"
  on_fail :: "OnFail option"
  cooldown :: "string option"

record VirtualModelConfig =
  strategy :: Strategy
  strategy_profile :: "string option"
  vm_fallback_on :: "int list option"
  vm_cooldown :: "string option"
  targets :: "TargetModel list"

record ResolvedModelConfig =
  r_fallback_on :: "FallbackItem list"
  r_cooldown :: "string option"
  r_max_retries :: int
  r_backoff :: "Backoff option"
  r_on_fail :: OnFail

definition nullish :: "'a option \<Rightarrow> 'a \<Rightarrow> 'a" where
  "nullish x d = (case x of Some v \<Rightarrow> v | None \<Rightarrow> d)"

section \<open>Config merge (config/strategies.ts)\<close>

definition resolveProfile ::
  "VirtualModelConfig \<Rightarrow> (string \<rightharpoonup> StrategyProfile) \<Rightarrow> StrategyProfile option" where
  "resolveProfile m profiles =
     (case strategy_profile m of
        None \<Rightarrow> None
      | Some n \<Rightarrow> (if n = [] then None else profiles n))"

definition mergeWithProfile ::
  "VirtualModelConfig \<Rightarrow> StrategyProfile option \<Rightarrow> ResolvedModelConfig" where
  "mergeWithProfile modelConfig profile =
     (let fallbackFromProfile = Option.bind profile fallback_on;
          fallbackOn =
            (case vm_fallback_on modelConfig of
               Some codes \<Rightarrow> map Status codes
             | None \<Rightarrow> nullish fallbackFromProfile [Status 429, Status 500, Status 503])
      in \<lparr> r_fallback_on = fallbackOn,
           r_cooldown =
             (case vm_cooldown modelConfig of
                Some c \<Rightarrow> Some c
              | None \<Rightarrow> Option.bind profile cooldown),
           r_max_retries = nullish (Option.bind profile max_retries) 0,
           r_backoff = Option.bind profile backoff,
           r_on_fail = nullish (Option.bind profile on_fail) continue_with_next \<rparr>)"

text \<open>A profile and a model that refers to it, for concrete instances.\<close>

definition exampleProfile :: StrategyProfile where
  "exampleProfile =
     \<lparr> max_retries = Some 2, timeout = None, backoff = None,
       fallback_on = Some [Status 503], on_fail = None, cooldown = Some ''1m'' \<rparr>"

definition exampleModel :: VirtualModelConfig where
  "exampleModel =
     \<lparr> strategy = sequential, strategy_profile = Some ''default'',
       vm_fallback_on = Some [429], vm_cooldown = None,
       targets = [\<lparr> model = ''claude-sonnet-4-6'', provider = ''anthropic'', weight = None \<rparr>] \<rparr>"

section \<open>Duration parser (util/duration.ts)\<close>

text \<open>
  \<open>parseDuration\<close> matches its argument against the regular expression
  \<^verbatim>\<open>/^(\d+(?:\.\d+)?)(ms|s|m|h)$/\<close>. The expression is kept as data and run by a
  backtracking matcher: \<open>rmatch r s\<close> lists, in the order a backtracking engine tries
  them, the remainders of \<open>s\<close> after each way of matching \<open>r\<close> at its start (greedy
  repetition first, alternatives left to right).
\<close>

datatype regex =
  Digit
  | Lit string
  | Seq regex regex
  | Alt regex regex
  | Plus regex
  | Opt regex

definition isDigit :: "char \<Rightarrow> bool" where
  "isDigit c = (c \<in> set ''0123456789'')"

function rmatch :: "regex \<Rightarrow> string \<Rightarrow> string list" where
  "rmatch Digit s = (case s of [] \<Rightarrow> [] | c # cs \<Rightarrow> if isDigit c then [cs] else [])"
| "rmatch (Lit l) s = (if prefix l s then [drop (length l) s] else [])"
| "rmatch (Seq a b) s = concat (map (rmatch b) (rmatch a s))"
| "rmatch (Alt a b) s = rmatch a s @ rmatch b s"
| "rmatch (Opt a) s = rmatch a s @ [s]"
| "rmatch (Plus a) s =
     concat (map (\<lambda>r. (if length r < length s then rmatch (Plus a) r else []) @ [r])
               (rmatch a s))"
  by pat_completeness auto
termination
  by (relation "measures [\<lambda>(r, s). size r, \<lambda>(r, s). length s]") auto

declare rmatch.simps(6) [simp del]

text \<open>The two capture groups of the expression.\<close>

definition magnitudeGroup :: regex where
  "magnitudeGroup = Seq (Plus Digit) (Opt (Seq (Lit ''.'') (Plus Digit)))"

definition unitGroup :: regex where
  "unitGroup = Alt (Lit ''ms'') (Alt (Lit ''s'') (Alt (Lit ''m'') (Lit ''h'')))"

text \<open>
  \<open>duration.match(...)\<close>: the first way of matching group 1 after which group 2 matches
  up to the end of the input (\<open>^\<close> and \<open>$\<close> anchor both ends). The result is the pair
  of captures (\<open>match[1]\<close>, \<open>match[2]\<close>), or \<open>None\<close> for \<open>null\<close>.
\<close>

definition durationMatch :: "string \<Rightarrow> (string \<times> string) option" where
  "durationMatch s =
     (case filter (\<lambda>r1. [] \<in> set (rmatch unitGroup r1)) (rmatch magnitudeGroup s) of
        [] \<Rightarrow> None
      | r1 # _ \<Rightarrow> Some (take (length s - length r1) s, r1))"

text \<open>
  \<open>parseFloat\<close> on an unsigned decimal literal: the leading digits, then, after a dot,
  the digits that follow it. \<open>None\<close> stands for \<open>NaN\<close> (no digit at all). Signs,
  exponents, leading blanks and \<open>Infinity\<close> are not modelled: capture 1 never has them.

  Numbers come in two readings. \<open>parseFloat\<close> and \<open>parseDuration\<close> here compute over
  exact reals, the value the literal denotes and unrounded products: this is the
  duration as the cooldown store and the backoff executor below take it, which keep
  instants and delays as exact reals. The number the JavaScript function itself returns
  is an IEEE 754 double, rounded after \<open>parseFloat\<close> and after each product; that function
  is \<open>parseDurationIEEE\<close> in the subsection on doubles below.
\<close>

definition digitVal :: "char \<Rightarrow> nat" where
  "digitVal c = of_char c - 48"

definition digitsVal :: "string \<Rightarrow> nat" where
  "digitsVal ds = foldl (\<lambda>a c. 10 * a + digitVal c) 0 ds"

definition parseFloat :: "string \<Rightarrow> real option" where
  "parseFloat s =
     (let ip = takeWhile isDigit s;
          rest = dropWhile isDigit s;
          fp = (case rest of [] \<Rightarrow> [] | c # cs \<Rightarrow> if c = CHR ''.'' then takeWhile isDigit cs else [])
      in if ip = [] \<and> fp = [] then None
         else Some (real (digitsVal ip) + real (digitsVal fp) / 10 ^ length fp))"

text \<open>
  The errors the routing core raises: the two \<open>Error\<close>s of \<open>parseDuration\<close>, and
  \<open>NaN_duration\<close> for the one path on which the function would return \<open>NaN\<close> instead
  of a number (\<open>parseFloat\<close> finding no digit).
\<close>

datatype error = Invalid_duration string | Unknown_unit string | NaN_duration

definition parseDuration :: "string \<Rightarrow> error + real" where
  "parseDuration duration =
     (case durationMatch duration of
        None \<Rightarrow> Inl (Invalid_duration duration)
      | Some (m1, unit) \<Rightarrow>
          (case parseFloat m1 of
             None \<Rightarrow> Inl NaN_duration
           | Some v \<Rightarrow>
               if unit = ''ms'' then Inr v
               else if unit = ''s'' then Inr (v * 1000)
               else if unit = ''m'' then Inr (v * 60 * 1000)
               else if unit = ''h'' then Inr (v * 60 * 60 * 1000)
               else Inl (Unknown_unit unit)))"

text \<open>
  The duration format in the specification's words: an integer or decimal magnitude
  (digits, optionally a dot and more digits) immediately followed by a unit suffix.
\<close>

definition allDigits :: "string \<Rightarrow> bool" where
  "allDigits ds = (ds \<noteq> [] \<and> list_all isDigit ds)"

definition unitFactor :: "string \<Rightarrow> real" where
  "unitFactor u =
     (if u = ''ms'' then 1 else if u = ''s'' then 1000
      else if u = ''m'' then 60000 else 3600000)"

definition magnitudeValue :: "string \<Rightarrow> string \<Rightarrow> real" where
  "magnitudeValue ip fp = real (digitsVal ip) + real (digitsVal fp) / 10 ^ length fp"

inductive durationFormat :: "string \<Rightarrow> real \<Rightarrow> bool" where
  integer_magnitude:
    "allDigits ip \<Longrightarrow> u \<in> {''ms'', ''s'', ''m'', ''h''} \<Longrightarrow>
     durationFormat (ip @ u) (magnitudeValue ip [] * unitFactor u)"
| decimal_magnitude:
    "allDigits ip \<Longrightarrow> allDigits fp \<Longrightarrow> u \<in> {''ms'', ''s'', ''m'', ''h''} \<Longrightarrow>
     durationFormat (ip @ ''.'' @ fp @ u) (magnitudeValue ip fp * unitFactor u)"

text \<open>The strings group 1 matches, and the characters they are made of.\<close>

definition magnitudeString :: "string \<Rightarrow> bool" where
  "magnitudeString m =
     (\<exists>ip. allDigits ip \<and> (m = ip \<or> (\<exists>fp. allDigits fp \<and> m = ip @ ''.'' @ fp)))"

definition magnitudeChar :: "char \<Rightarrow> bool" where
  "magnitudeChar c = (isDigit c \<or> c = CHR ''.'')"

subsection \<open>parseDuration over IEEE 754 doubles\<close>

text \<open>
  A double that is not negative (a magnitude has no sign): \<open>Dbl m e\<close> is the number
  \<open>m * 2 ^ e\<close>, and \<open>Infinity\<close> what an operation returns whose rounded result is
  \<open>2 ^ 1024\<close> or more. Rounding normalises: zero is \<open>Dbl 0 0\<close>, a normal number has
  \<open>2 ^ 52 \<le> m < 2 ^ 53\<close> and \<open>- 1074 \<le> e \<le> 971\<close>, a subnormal one \<open>m < 2 ^ 52\<close> and
  \<open>e = - 1074\<close>.
\<close>

datatype Double = Dbl nat int | Infinity

text \<open>
  \<open>roundHalfEven a b\<close> is the integer nearest to \<open>a / b\<close>, the even one of two that are
  equally near. \<open>log2Floor a b\<close> is the exponent of the leading bit of \<open>a / b\<close>, found
  from the bit lengths of \<open>a\<close> and \<open>b\<close> and one comparison.
\<close>

definition roundHalfEven :: "nat \<Rightarrow> nat \<Rightarrow> nat" where
  "roundHalfEven a b =
     (let f = a div b; r = a mod b
      in if 2 * r < b then f else if b < 2 * r then f + 1 else if even f then f else f + 1)"

definition log2Floor :: "nat \<Rightarrow> nat \<Rightarrow> int" where
  "log2Floor a b =
     (let d = int (floorlog 2 a) - int (floorlog 2 b)
      in if (if 0 \<le> d then b * 2 ^ nat d \<le> a else b \<le> a * 2 ^ nat (- d)) then d else d - 1)"

text \<open>
  \<open>roundRatio a b\<close> is the double nearest to \<open>a / b\<close> (round to nearest, ties to even,
  the rounding of every JavaScript operation): with 53 significant bits the last place
  has exponent \<open>log2Floor a b - 52\<close>, but not below \<open>- 1074\<close>; the significand is
  \<open>a / b\<close> in units of the last place, rounded. A significand rounded up to \<open>2 ^ 53\<close>
  moves to the next exponent, and a result beyond the largest double is \<open>Infinity\<close>.
\<close>

definition makeDouble :: "nat \<Rightarrow> int \<Rightarrow> Double" where
  "makeDouble n q =
     (if n = 0 then Dbl 0 0
      else if n = 2 ^ 53 then (if 971 < q + 1 then Infinity else Dbl (2 ^ 52) (q + 1))
      else if 971 < q then Infinity else Dbl n q)"

definition roundRatio :: "nat \<Rightarrow> nat \<Rightarrow> Double" where
  "roundRatio a b =
     (if a = 0 then Dbl 0 0
      else let q = max (log2Floor a b - 52) (- 1074)
           in makeDouble (if 0 \<le> q then roundHalfEven a (b * 2 ^ nat q)
                          else roundHalfEven (a * 2 ^ nat (- q)) b) q)"

text \<open>
  The product of a double and a natural number (the code multiplies by the literals 1000
  and 60 only), rounded, and the real number a finite double stands for.
\<close>

definition timesDouble :: "Double \<Rightarrow> nat \<Rightarrow> Double" where
  "timesDouble d c =
     (case d of
        Infinity \<Rightarrow> Infinity
      | Dbl m e \<Rightarrow> if 0 \<le> e then roundRatio (m * c * 2 ^ nat e) 1
                   else roundRatio (m * c) (2 ^ nat (- e)))"

definition doubleValue :: "Double \<Rightarrow> real option" where
  "doubleValue d =
     (case d of
        Infinity \<Rightarrow> None
      | Dbl m e \<Rightarrow> Some (if 0 \<le> e then real m * 2 ^ nat e else real m / 2 ^ nat (- e)))"

text \<open>
  \<open>parseFloat\<close> and \<open>parseDuration\<close> as the code computes them. \<open>parseFloat\<close> returns
  the double nearest to the value of the literal: digits \<open>ip\<close>, a dot and digits \<open>fp\<close>
  denote the quotient of the number written \<open>ip fp\<close> and \<open>10 ^ length fp\<close>. The products
  are the source's, evaluated left to right: \<open>value * 1000\<close>, \<open>value * 60 * 1000\<close>,
  \<open>value * 60 * 60 * 1000\<close>, each rounded.
\<close>

definition parseFloatIEEE :: "string \<Rightarrow> Double option" where
  "parseFloatIEEE s =
     (let ip = takeWhile isDigit s;
          rest = dropWhile isDigit s;
          fp = (case rest of [] \<Rightarrow> [] | c # cs \<Rightarrow> if c = CHR ''.'' then takeWhile isDigit cs else [])
      in if ip = [] \<and> fp = [] then None
         else Some (roundRatio (digitsVal ip * 10 ^ length fp + digitsVal fp) (10 ^ length fp)))"

definition parseDurationIEEE :: "string \<Rightarrow> error + Double" where
  "parseDurationIEEE duration =
     (case durationMatch duration of
        None \<Rightarrow> Inl (Invalid_duration duration)
      | Some (m1, unit) \<Rightarrow>
          (case parseFloatIEEE m1 of
             None \<Rightarrow> Inl NaN_duration
           | Some v \<Rightarrow>
               if unit = ''ms'' then Inr v
               else if unit = ''s'' then Inr (timesDouble v 1000)
               else if unit = ''m'' then Inr (timesDouble (timesDouble v 60) 1000)
               else if unit = ''h'' then
                 Inr (timesDouble (timesDouble (timesDouble v 60) 60) 1000)
               else Inl (Unknown_unit unit)))"

text \<open>
  The duration format in the specification's words, with the number the code computes
  for it: the double of the magnitude, then the products of its unit.
\<close>

definition magnitudeDouble :: "string \<Rightarrow> string \<Rightarrow> Double" where
  "magnitudeDouble ip fp =
     roundRatio (digitsVal ip * 10 ^ length fp + digitsVal fp) (10 ^ length fp)"

definition unitProduct :: "string \<Rightarrow> Double \<Rightarrow> Double" where
  "unitProduct u d =
     (if u = ''ms'' then d
      else if u = ''s'' then timesDouble d 1000
      else if u = ''m'' then timesDouble (timesDouble d 60) 1000
      else timesDouble (timesDouble (timesDouble d 60) 60) 1000)"

inductive durationFormatIEEE :: "string \<Rightarrow> Double \<Rightarrow> bool" where
  integer_double:
    "allDigits ip \<Longrightarrow> u \<in> {''ms'', ''s'', ''m'', ''h''} \<Longrightarrow>
     durationFormatIEEE (ip @ u) (unitProduct u (magnitudeDouble ip []))"
| decimal_double:
    "allDigits ip \<Longrightarrow> allDigits fp \<Longrightarrow> u \<in> {''ms'', ''s'', ''m'', ''h''} \<Longrightarrow>
     durationFormatIEEE (ip @ ''.'' @ fp @ u) (unitProduct u (magnitudeDouble ip fp))"

text \<open>
  A finite double in the normal range that \<open>k\<close> roundings separate from the real \<open>x\<close>:
  each rounding changes a number by a factor between \<open>1 - 2 ^ - 53\<close> and \<open>1 + 2 ^ - 53\<close>.
\<close>

definition withinRounding :: "nat \<Rightarrow> real \<Rightarrow> Double \<Rightarrow> bool" where
  "withinRounding k x d =
     (case d of
        Infinity \<Rightarrow> False
      | Dbl m e \<Rightarrow>
          2 powr (- 1022) \<le> real m * 2 powr real_of_int e \<and>
          x * (1 - 2 powr (- 53)) ^ k \<le> real m * 2 powr real_of_int e \<and>
          real m * 2 powr real_of_int e \<le> x * (1 + 2 powr (- 53)) ^ k)"

section \<open>Router state (router/state.ts)\<close>

record ModelMetrics =
  requests :: nat
  successes :: nat
  failures :: nat
  fallbacks :: nat
  totalLatencyMs :: real

text \<open>
  A stored round-robin cursor is the result of \<open>(idx + 1) % length\<close>: a natural number,
  or \<open>NaN\<close> when the length is 0.
\<close>

datatype JsIndex = Index nat | NaNIndex

record RouterState =
  cooldowns :: "string \<rightharpoonup> real"
  roundRobinIndex :: "string \<rightharpoonup> JsIndex"
  metrics :: "string \<rightharpoonup> ModelMetrics"

definition createRouterState :: RouterState where
  "createRouterState =
     \<lparr> cooldowns = Map.empty, roundRobinIndex = Map.empty, metrics = Map.empty \<rparr>"

subsection \<open>Cooldown store\<close>

text \<open>
  \<open>Date.now()\<close> is the parameter \<open>now\<close>: milliseconds since the epoch. The test
  \<open>!expiry\<close> holds when the key has no entry and when the stored number is \<open>0\<close>.
\<close>

definition isInCooldown :: "real \<Rightarrow> string \<Rightarrow> RouterState \<Rightarrow> bool \<times> RouterState" where
  "isInCooldown now modelKey st =
     (case cooldowns st modelKey of
        None \<Rightarrow> (False, st)
      | Some expiry \<Rightarrow>
          if expiry = 0 then (False, st)
          else if now \<ge> expiry
            then (False, st\<lparr> cooldowns := (cooldowns st)(modelKey := None) \<rparr>)
            else (True, st))"

text \<open>
  \<open>!duration\<close> holds for \<open>undefined\<close> and for the empty string. A duration that does
  not parse makes \<open>parseDuration\<close> throw before the state is touched.
\<close>

definition setCooldown ::
  "real \<Rightarrow> string \<Rightarrow> string option \<Rightarrow> RouterState \<Rightarrow> error + RouterState" where
  "setCooldown now modelKey duration st =
     (case duration of
        None \<Rightarrow> Inr st
      | Some d \<Rightarrow>
          if d = [] then Inr st
          else (case parseDuration d of
                  Inl e \<Rightarrow> Inl e
                | Inr ms \<Rightarrow> Inr (st\<lparr> cooldowns := (cooldowns st)(modelKey \<mapsto> now + ms) \<rparr>)))"

text \<open>
  Expiry instants are wall-clock readings plus a duration, so positive numbers: the
  empty state has none, and \<open>setCooldown\<close> at a positive clock reading stores a positive one.
\<close>

definition positiveExpiries :: "RouterState \<Rightarrow> bool" where
  "positiveExpiries st = (\<forall>k e. cooldowns st k = Some e \<longrightarrow> 0 < e)"

text \<open>A state with one cooldown entry, for concrete instances.\<close>

definition coolState :: RouterState where
  "coolState = createRouterState\<lparr> cooldowns := [''a/b'' \<mapsto> 301000] \<rparr>"

subsection \<open>Metrics helpers\<close>

text \<open>
  \<open>getOrCreateMetrics\<close> returns the object stored under the key, storing a zeroed one
  first when there is none; the callers then mutate that object in place. Here the
  helper returns the object together with the state that holds it, and each caller
  writes the changed object back under the same key.
\<close>

definition getOrCreateMetrics :: "string \<Rightarrow> RouterState \<Rightarrow> ModelMetrics \<times> RouterState" where
  "getOrCreateMetrics modelKey st =
     (case metrics st modelKey of
        Some m \<Rightarrow> (m, st)
      | None \<Rightarrow>
          (let m = \<lparr> requests = 0, successes = 0, failures = 0, fallbacks = 0,
                     totalLatencyMs = 0 \<rparr>
           in (m, st\<lparr> metrics := (metrics st)(modelKey \<mapsto> m) \<rparr>)))"

definition recordSuccess :: "string \<Rightarrow> real \<Rightarrow> RouterState \<Rightarrow> RouterState" where
  "recordSuccess modelKey latencyMs st =
     (let (m, st1) = getOrCreateMetrics modelKey st;
          m1 = m\<lparr> requests := requests m + 1 \<rparr>;
          m2 = m1\<lparr> successes := successes m1 + 1 \<rparr>;
          m3 = m2\<lparr> totalLatencyMs := totalLatencyMs m2 + latencyMs \<rparr>
      in st1\<lparr> metrics := (metrics st1)(modelKey \<mapsto> m3) \<rparr>)"

definition recordFailure :: "string \<Rightarrow> RouterState \<Rightarrow> RouterState" where
  "recordFailure modelKey st =
     (let (m, st1) = getOrCreateMetrics modelKey st;
          m1 = m\<lparr> requests := requests m + 1 \<rparr>;
          m2 = m1\<lparr> failures := failures m1 + 1 \<rparr>
      in st1\<lparr> metrics := (metrics st1)(modelKey \<mapsto> m2) \<rparr>)"

definition recordFallback :: "string \<Rightarrow> RouterState \<Rightarrow> RouterState" where
  "recordFallback modelKey st =
     (let (m, st1) = getOrCreateMetrics modelKey st;
          m1 = m\<lparr> fallbacks := fallbacks m + 1 \<rparr>
      in st1\<lparr> metrics := (metrics st1)(modelKey \<mapsto> m1) \<rparr>)"

text \<open>A call of one of the three recording helpers, and a run of such calls in order.\<close>

datatype MetricsCall =
  RecordSuccess string real
  | RecordFailure string
  | RecordFallback string

fun applyCall :: "MetricsCall \<Rightarrow> RouterState \<Rightarrow> RouterState" where
  "applyCall (RecordSuccess k l) st = recordSuccess k l st"
| "applyCall (RecordFailure k) st = recordFailure k st"
| "applyCall (RecordFallback k) st = recordFallback k st"

fun runCalls :: "MetricsCall list \<Rightarrow> RouterState \<Rightarrow> RouterState" where
  "runCalls [] st = st"
| "runCalls (c # cs) st = runCalls cs (applyCall c st)"

text \<open>The latencies passed to \<open>recordSuccess\<close> for one key, in call order.\<close>

fun latenciesFor :: "string \<Rightarrow> MetricsCall list \<Rightarrow> real list" where
  "latenciesFor k [] = []"
| "latenciesFor k (RecordSuccess k' l # cs) =
     (if k' = k then l # latenciesFor k cs else latenciesFor k cs)"
| "latenciesFor k (_ # cs) = latenciesFor k cs"

text \<open>The counters of a key, all zero while the key has no metrics object yet.\<close>

definition metricsOf :: "RouterState \<Rightarrow> string \<Rightarrow> ModelMetrics" where
  "metricsOf st k =
     nullish (metrics st k)
       \<lparr> requests = 0, successes = 0, failures = 0, fallbacks = 0, totalLatencyMs = 0 \<rparr>"

section \<open>Target selector (router/strategies.ts)\<close>

subsection \<open>The JavaScript primitives the selector uses\<close>

text \<open>
  \<open>xs.slice(i)\<close> and \<open>xs.slice(0, i)\<close> for an index that is a natural number or \<open>NaN\<close>
  (which \<open>slice\<close> reads as 0), and \<open>(idx + 1) % len\<close>, which is \<open>NaN\<close> when \<open>len\<close> is 0.
\<close>

definition sliceFrom :: "JsIndex \<Rightarrow> 'a list \<Rightarrow> 'a list" where
  "sliceFrom i xs = (case i of Index n \<Rightarrow> drop n xs | NaNIndex \<Rightarrow> xs)"

definition sliceTo :: "JsIndex \<Rightarrow> 'a list \<Rightarrow> 'a list" where
  "sliceTo i xs = (case i of Index n \<Rightarrow> take n xs | NaNIndex \<Rightarrow> [])"

definition incrMod :: "JsIndex \<Rightarrow> nat \<Rightarrow> JsIndex" where
  "incrMod i len =
     (case i of
        NaNIndex \<Rightarrow> NaNIndex
      | Index n \<Rightarrow> if len = 0 then NaNIndex else Index ((n + 1) mod len))"

text \<open>
  \<open>Math.random()\<close> reads the next number of a stream of draws; the stream and the
  count of draws already used are the state of the random source.
\<close>

record RandomSource =
  draws :: "nat \<Rightarrow> real"
  used :: nat

definition Math_random :: "RandomSource \<Rightarrow> real \<times> RandomSource" where
  "Math_random rs = (draws rs (used rs), rs\<lparr> used := used rs + 1 \<rparr>)"

text \<open>
  Scores and comparator results are numbers that may be infinite or \<open>NaN\<close>: a weight
  divided by a total weight of 0. The operations below are the IEEE cases of \<open>/\<close>,
  \<open>*\<close> and \<open>-\<close> that the selector meets, over exact reals.
\<close>

datatype JsNum = Fin real | PosInf | NegInf | NaN

definition jsDiv :: "real \<Rightarrow> real \<Rightarrow> JsNum" where
  "jsDiv a b =
     (if b \<noteq> 0 then Fin (a / b)
      else if a = 0 then NaN else if a > 0 then PosInf else NegInf)"

fun jsMul :: "real \<Rightarrow> JsNum \<Rightarrow> JsNum" where
  "jsMul r (Fin q) = Fin (r * q)"
| "jsMul r PosInf = (if r = 0 then NaN else if r > 0 then PosInf else NegInf)"
| "jsMul r NegInf = (if r = 0 then NaN else if r > 0 then NegInf else PosInf)"
| "jsMul r NaN = NaN"

fun jsSub :: "JsNum \<Rightarrow> JsNum \<Rightarrow> JsNum" where
  "jsSub (Fin a) (Fin b) = Fin (a - b)"
| "jsSub NaN _ = NaN"
| "jsSub _ NaN = NaN"
| "jsSub PosInf PosInf = NaN"
| "jsSub NegInf NegInf = NaN"
| "jsSub PosInf _ = PosInf"
| "jsSub NegInf _ = NegInf"
| "jsSub (Fin a) PosInf = NegInf"
| "jsSub (Fin a) NegInf = PosInf"

fun isNegative :: "JsNum \<Rightarrow> bool" where
  "isNegative (Fin r) = (r < 0)"
| "isNegative NegInf = True"
| "isNegative _ = False"

text \<open>
  \<open>Array.prototype.sort(compare)\<close> belongs to the engine, not to the repository. It is
  modelled as a stable insertion sort that calls \<open>compare\<close> once for each comparison it
  makes: an element is placed before the first element it compares negative against. The
  comparator may draw random numbers, so it takes and returns the random source.
\<close>

type_synonym 'a comparator = "'a \<Rightarrow> 'a \<Rightarrow> RandomSource \<Rightarrow> JsNum \<times> RandomSource"

fun insertSorted ::
  "'a comparator \<Rightarrow> 'a \<Rightarrow> 'a list \<Rightarrow> RandomSource \<Rightarrow> 'a list \<times> RandomSource" where
  "insertSorted compare x [] rs = ([x], rs)"
| "insertSorted compare x (y # ys) rs =
     (case compare x y rs of
        (c, rs1) \<Rightarrow>
          if isNegative c then (x # y # ys, rs1)
          else (case insertSorted compare x ys rs1 of (zs, rs2) \<Rightarrow> (y # zs, rs2)))"

fun sortInto ::
  "'a comparator \<Rightarrow> 'a list \<Rightarrow> 'a list \<Rightarrow> RandomSource \<Rightarrow> 'a list \<times> RandomSource" where
  "sortInto compare acc [] rs = (acc, rs)"
| "sortInto compare acc (x # xs) rs =
     (case insertSorted compare x acc rs of
        (acc1, rs1) \<Rightarrow> sortInto compare acc1 xs rs1)"

definition arraySort ::
  "'a comparator \<Rightarrow> 'a list \<Rightarrow> RandomSource \<Rightarrow> 'a list \<times> RandomSource" where
  "arraySort compare xs rs = sortInto compare [] xs rs"

subsection \<open>selectTargets\<close>

definition weightOf :: "TargetModel \<Rightarrow> real" where
  "weightOf t = nullish (weight t) 1"

fun scoreAll ::
  "real \<Rightarrow> TargetModel list \<Rightarrow> RandomSource \<Rightarrow> (TargetModel \<times> JsNum) list \<times> RandomSource" where
  "scoreAll totalWeight [] rs = ([], rs)"
| "scoreAll totalWeight (t # ts) rs =
     (case Math_random rs of
        (r, rs1) \<Rightarrow>
          (case scoreAll totalWeight ts rs1 of
             (xs, rs2) \<Rightarrow> ((t, jsMul r (jsDiv (weightOf t) totalWeight)) # xs, rs2)))"

definition byScoreDescending :: "(TargetModel \<times> JsNum) comparator" where
  "byScoreDescending a b rs = (jsSub (snd b) (snd a), rs)"

definition weightedSort ::
  "TargetModel list \<Rightarrow> RandomSource \<Rightarrow> TargetModel list \<times> RandomSource" where
  "weightedSort ts rs =
     (let totalWeight = foldl (\<lambda>sum t. sum + weightOf t) 0 ts
      in case scoreAll totalWeight ts rs of
           (scored, rs1) \<Rightarrow>
             (case arraySort byScoreDescending scored rs1 of
                (ordered, rs2) \<Rightarrow> (map fst ordered, rs2)))"

definition coinFlip :: "TargetModel comparator" where
  "coinFlip a b rs = (case Math_random rs of (r, rs1) \<Rightarrow> (Fin (r - 0.5), rs1))"

text \<open>
  The list \<open>selectTargets\<close> returns, with the router state and the random source after
  the call. The \<open>default\<close> branch of the \<open>switch\<close> has no strategy left to reach it.
\<close>

definition selectTargets ::
  "string \<Rightarrow> VirtualModelConfig \<Rightarrow> RouterState \<Rightarrow> RandomSource \<Rightarrow>
     TargetModel list \<times> RouterState \<times> RandomSource" where
  "selectTargets virtualModelId config st rs =
     (case strategy config of
        sequential \<Rightarrow> (targets config, st, rs)
      | priority \<Rightarrow> (targets config, st, rs)
      | round_robin \<Rightarrow>
          (let idx = nullish (roundRobinIndex st virtualModelId) (Index 0);
               rotated = sliceFrom idx (targets config) @ sliceTo idx (targets config)
           in (rotated,
               st\<lparr> roundRobinIndex := (roundRobinIndex st)
                     (virtualModelId \<mapsto> incrMod idx (length (targets config))) \<rparr>,
               rs))
      | random \<Rightarrow>
          (case arraySort coinFlip (targets config) rs of (ordered, rs1) \<Rightarrow> (ordered, st, rs1))
      | weighted \<Rightarrow>
          (case weightedSort (targets config) rs of (ordered, rs1) \<Rightarrow> (ordered, st, rs1)))"

text \<open>Successive calls for one model id, each on the state the previous call left.\<close>

fun selectRepeatedly ::
  "nat \<Rightarrow> string \<Rightarrow> VirtualModelConfig \<Rightarrow> RouterState \<Rightarrow> RandomSource \<Rightarrow>
     TargetModel list list \<times> RouterState \<times> RandomSource" where
  "selectRepeatedly 0 vmid config st rs = ([], st, rs)"
| "selectRepeatedly (Suc k) vmid config st rs =
     (case selectTargets vmid config st rs of
        (r, st1, rs1) \<Rightarrow>
          (case selectRepeatedly k vmid config st1 rs1 of
             (rest, st2, rs2) \<Rightarrow> (r # rest, st2, rs2)))"

text \<open>
  The stored cursor of a model id is in range for a target list: none stored yet, or an
  index below the length.
\<close>

definition cursorInRange :: "RouterState \<Rightarrow> string \<Rightarrow> nat \<Rightarrow> bool" where
  "cursorInRange st vmid n =
     (case roundRobinIndex st vmid of
        None \<Rightarrow> True
      | Some (Index i) \<Rightarrow> i < n
      | Some NaNIndex \<Rightarrow> False)"

definition cursorValue :: "RouterState \<Rightarrow> string \<Rightarrow> nat" where
  "cursorValue st vmid =
     (case roundRobinIndex st vmid of Some (Index i) \<Rightarrow> i | _ \<Rightarrow> 0)"

text \<open>Four targets and a round-robin model over them, for concrete instances.\<close>

definition targetA :: TargetModel where
  "targetA = \<lparr> model = ''claude-opus-4'', provider = ''anthropic'', weight = Some 3 \<rparr>"

definition targetB :: TargetModel where
  "targetB = \<lparr> model = ''claude-sonnet-4'', provider = ''anthropic'', weight = Some 1 \<rparr>"

definition targetC :: TargetModel where
  "targetC = \<lparr> model = ''gpt-4o'', provider = ''openai'', weight = Some 2 \<rparr>"

definition makeConfig :: "Strategy \<Rightarrow> TargetModel list \<Rightarrow> VirtualModelConfig" where
  "makeConfig s ts =
     \<lparr> strategy = s, strategy_profile = None, vm_fallback_on = None, vm_cooldown = None,
       targets = ts \<rparr>"

definition constantSource :: "real \<Rightarrow> RandomSource" where
  "constantSource r = \<lparr> draws = (\<lambda>n. r), used = 0 \<rparr>"

definition targetD :: TargetModel where
  "targetD = \<lparr> model = ''gemini-pro'', provider = ''google'', weight = None \<rparr>"

text \<open>
  The cursor map is keyed by the model id alone, so the cursor a model id has reached
  under one target list is the cursor the next call finds under another. The state after
  three calls for \<open>virtual/model-a\<close> with four targets:
\<close>

definition afterLongerList :: RouterState where
  "afterLongerList =
     fst (snd (selectRepeatedly 3 ''virtual/model-a''
                 (makeConfig round_robin [targetA, targetB, targetC, targetD])
                 createRouterState (constantSource 0)))"

subsection \<open>selectTargets over shared arrays\<close>

text \<open>
  \<open>config.targets\<close> is an array object that the configuration and every caller share,
  and \<open>sort\<close> works in place. To tell a sorted copy from a sorted original, the arrays
  that outlive the call live in a store: a reference is a position in the store, and a
  new array takes the next free position. Temporaries that never leave the function
  (the two slices, the scored list) stay values. \<open>selectTargetsRef\<close> is \<open>selectTargets\<close>
  on references: it takes the strategy and the reference of \<open>config.targets\<close> and
  returns the reference of the array it hands back.
\<close>

type_synonym ArrayStore = "TargetModel list list"

definition newArray :: "TargetModel list \<Rightarrow> ArrayStore \<Rightarrow> nat \<times> ArrayStore" where
  "newArray xs h = (length h, h @ [xs])"

definition sortInPlace ::
  "TargetModel comparator \<Rightarrow> nat \<Rightarrow> ArrayStore \<Rightarrow> RandomSource \<Rightarrow> ArrayStore \<times> RandomSource" where
  "sortInPlace compare a h rs =
     (case arraySort compare (h ! a) rs of (ordered, rs1) \<Rightarrow> (h[a := ordered], rs1))"

definition weightedSortRef ::
  "nat \<Rightarrow> ArrayStore \<Rightarrow> RandomSource \<Rightarrow> nat \<times> ArrayStore \<times> RandomSource" where
  "weightedSortRef a h rs =
     (case weightedSort (h ! a) rs of
        (ordered, rs1) \<Rightarrow> (case newArray ordered h of (b, h1) \<Rightarrow> (b, h1, rs1)))"

definition selectTargetsRef ::
  "string \<Rightarrow> Strategy \<Rightarrow> nat \<Rightarrow> ArrayStore \<Rightarrow> RouterState \<Rightarrow> RandomSource \<Rightarrow>
     nat \<times> ArrayStore \<times> RouterState \<times> RandomSource" where
  "selectTargetsRef virtualModelId strat t h st rs =
     (case strat of
        sequential \<Rightarrow> (case newArray (h ! t) h of (a, h1) \<Rightarrow> (a, h1, st, rs))
      | priority \<Rightarrow> (case newArray (h ! t) h of (a, h1) \<Rightarrow> (a, h1, st, rs))
      | round_robin \<Rightarrow>
          (let idx = nullish (roundRobinIndex st virtualModelId) (Index 0)
           in case newArray (sliceFrom idx (h ! t) @ sliceTo idx (h ! t)) h of
                (a, h1) \<Rightarrow>
                  (a, h1,
                   st\<lparr> roundRobinIndex := (roundRobinIndex st)
                         (virtualModelId \<mapsto> incrMod idx (length (h ! t))) \<rparr>,
                   rs))
      | random \<Rightarrow>
          (case newArray (h ! t) h of
             (a, h1) \<Rightarrow>
               (case sortInPlace coinFlip a h1 rs of (h2, rs1) \<Rightarrow> (a, h2, st, rs1)))
      | weighted \<Rightarrow>
          (case newArray (h ! t) h of
             (a, h1) \<Rightarrow>
               (case weightedSortRef a h1 rs of (b, h2, rs1) \<Rightarrow> (b, h2, st, rs1))))"

text \<open>A random source that alternates between two draws, for concrete instances.\<close>

definition alternatingSource :: RandomSource where
  "alternatingSource = \<lparr> draws = (\<lambda>n. if even n then 0.9 else 0.1), used = 0 \<rparr>"

section \<open>Resolver (router/resolver.ts)\<close>

record ProviderModel =
  providerID :: string
  modelID :: string

record ResolvedTarget = ProviderModel +
  allTargets :: "ProviderModel list"

definition normalizeModelID :: "string \<Rightarrow> string \<Rightarrow> string" where
  "normalizeModelID pID mID =
     (let pfx = pID @ ''/''
      in if prefix pfx mID then drop (length pfx) mID else mID)"

definition modelKeyOf :: "TargetModel \<Rightarrow> string" where
  "modelKeyOf t = provider t @ ''/'' @ normalizeModelID (provider t) (model t)"

text \<open>
  The \<open>for\<close> loop of \<open>resolveModel\<close> over the ordered targets: the first target that is
  not in cooldown, with the state that the cooldown checks leave.
\<close>

fun resolveLoop ::
  "real \<Rightarrow> TargetModel list \<Rightarrow> RouterState \<Rightarrow> ProviderModel option \<times> RouterState" where
  "resolveLoop now [] st = (None, st)"
| "resolveLoop now (t # ts) st =
     (let mID = normalizeModelID (provider t) (model t);
          modelKey = provider t @ ''/'' @ mID
      in case isInCooldown now modelKey st of
           (True, st1) \<Rightarrow> resolveLoop now ts st1
         | (False, st1) \<Rightarrow> (Some \<lparr> providerID = provider t, modelID = mID \<rparr>, st1))"

definition resolveModel ::
  "real \<Rightarrow> string \<Rightarrow> (string \<rightharpoonup> VirtualModelConfig) \<Rightarrow> (string \<rightharpoonup> StrategyProfile) \<Rightarrow>
     RouterState \<Rightarrow> RandomSource \<Rightarrow> ResolvedTarget option \<times> RouterState \<times> RandomSource" where
  "resolveModel now virtualModelID virtualModels strategyProfiles st rs =
     (case virtualModels virtualModelID of
        None \<Rightarrow> (None, st, rs)
      | Some config \<Rightarrow>
          (let profile = resolveProfile config strategyProfiles;
               merged = mergeWithProfile config profile
           in case selectTargets virtualModelID config st rs of
                (ts, st1, rs1) \<Rightarrow>
                  (let allT = map (\<lambda>t. \<lparr> providerID = provider t,
                                   modelID = normalizeModelID (provider t) (model t) \<rparr>) ts
                   in case resolveLoop now ts st1 of
                        (None, st2) \<Rightarrow> (None, st2, rs1)
                      | (Some pm, st2) \<Rightarrow>
                          (Some \<lparr> providerID = providerID pm, modelID = modelID pm,
                                  allTargets = allT \<rparr>, st2, rs1))))"

text \<open>A model whose configured id repeats the provider prefix, for concrete instances.\<close>

definition repeatedPrefixModels :: "string \<rightharpoonup> VirtualModelConfig" where
  "repeatedPrefixModels =
     [''virtual/test'' \<mapsto>
        makeConfig sequential
          [\<lparr> model = ''openrouter/openrouter/gpt-4o'', provider = ''openrouter'',
             weight = None \<rparr>]]"

section \<open>Retry and backoff executor (router/strategies.ts)\<close>

















section \<open>Configuration loader (config/loader.ts)\<close>

text \<open>
  \<open>loadConfig\<close> casts the parsed JSON document to \<open>VirtualConfig\<close> without checking it, so
  fields that the interfaces declare as required may be missing at run time: in the
  document every field of a model and of a target is optional. A strategy is the string the
  document holds. An object is the list of its entries in \<open>Object.entries\<close> order, and a
  \<open>Map\<close> is the list of its entries in insertion order. \<open>console.warn\<close> appends a line
  to a list of warnings, which \<open>loadConfig\<close> returns beside its result.
\<close>

record RawTarget =
  raw_model :: "string option"
  raw_provider :: "string option"
  raw_weight :: "real option"

record RawModel =
  raw_strategy :: "string option"
  raw_strategy_profile :: "string option"
  raw_fallback_on :: "int list option"
  raw_cooldown :: "string option"
  raw_targets :: "RawTarget list option"

record RawConfig =
  raw_models :: "(string \<times> RawModel) list option"
  raw_strategies :: "(string \<times> StrategyProfile) list option"
  raw_runtimeReplacement :: "string option"

text \<open>
  A model that passed the target check of \<open>loadConfig\<close>: its target list is there, and its
  strategy has been filled in.
\<close>

record LoadedModel =
  l_strategy :: string
  l_strategy_profile :: "string option"
  l_fallback_on :: "int list option"
  l_cooldown :: "string option"
  l_targets :: "RawTarget list"

record LoadedConfig =
  virtualModels :: "(string \<times> LoadedModel) list"
  strategyProfiles :: "(string \<times> StrategyProfile) list"
  runtimeReplacement :: "string option"

text \<open>\<open>Map.prototype.set\<close>: an existing key keeps its place, a new key goes last.\<close>

fun mapSet :: "'k \<Rightarrow> 'v \<Rightarrow> ('k \<times> 'v) list \<Rightarrow> ('k \<times> 'v) list" where
  "mapSet k v [] = [(k, v)]"
| "mapSet k v ((k', v') # kvs) =
     (if k' = k then (k, v) # kvs else (k', v') # mapSet k v kvs)"

definition mapHas :: "'k \<Rightarrow> ('k \<times> 'v) list \<Rightarrow> bool" where
  "mapHas k kvs = (k \<in> fst ` set kvs)"

definition quoted :: "string \<Rightarrow> string" where
  "quoted s = [CHR 0x22] @ s @ [CHR 0x22]"

definition warnNoTargets :: "string \<Rightarrow> string" where
  "warnNoTargets name =
     ''[virtual-provider] Virtual model '' @ quoted name @ '' has no targets, skipping''"

definition warnProfileNotFound :: "string \<Rightarrow> string \<Rightarrow> string" where
  "warnProfileNotFound profileName name =
     ''[virtual-provider] Strategy profile '' @ quoted profileName @
     '' not found for model '' @ quoted name"

text \<open>\<open>!model.targets || model.targets.length === 0\<close>\<close>

definition noTargets :: "RawModel \<Rightarrow> bool" where
  "noTargets m = (case raw_targets m of None \<Rightarrow> True | Some ts \<Rightarrow> ts = [])"

text \<open>\<open>if (!model.strategy) model.strategy = "sequential"\<close>, and the model as it is stored.\<close>

definition strategyOrDefault :: "RawModel \<Rightarrow> string" where
  "strategyOrDefault m =
     (case raw_strategy m of
        None \<Rightarrow> ''sequential''
      | Some s \<Rightarrow> if s = [] then ''sequential'' else s)"

definition storedModel :: "RawModel \<Rightarrow> LoadedModel" where
  "storedModel m =
     \<lparr> l_strategy = strategyOrDefault m,
       l_strategy_profile = raw_strategy_profile m,
       l_fallback_on = raw_fallback_on m,
       l_cooldown = raw_cooldown m,
       l_targets = nullish (raw_targets m) [] \<rparr>"

text \<open>\<open>model.strategy_profile && !strategyProfiles.has(model.strategy_profile)\<close>\<close>

definition unknownProfile :: "(string \<times> StrategyProfile) list \<Rightarrow> RawModel \<Rightarrow> bool" where
  "unknownProfile profiles m =
     (case raw_strategy_profile m of
        None \<Rightarrow> False
      | Some p \<Rightarrow> p \<noteq> [] \<and> \<not> mapHas p profiles)"

fun loadProfiles ::
  "(string \<times> StrategyProfile) list \<Rightarrow> (string \<times> StrategyProfile) list \<Rightarrow>
     (string \<times> StrategyProfile) list" where
  "loadProfiles [] acc = acc"
| "loadProfiles ((name, profile) # rest) acc = loadProfiles rest (mapSet name profile acc)"

fun loadModels ::
  "(string \<times> StrategyProfile) list \<Rightarrow> (string \<times> RawModel) list \<Rightarrow>
     (string \<times> LoadedModel) list \<Rightarrow> string list \<Rightarrow>
     (string \<times> LoadedModel) list \<times> string list" where
  "loadModels profiles [] vms warns = (vms, warns)"
| "loadModels profiles ((name, m) # rest) vms warns =
     (if noTargets m then loadModels profiles rest vms (warns @ [warnNoTargets name])
      else
        (let warns1 =
               (if unknownProfile profiles m
                then warns @ [warnProfileNotFound (nullish (raw_strategy_profile m) []) name]
                else warns)
         in loadModels profiles rest
              (mapSet (''virtual/'' @ name) (storedModel m) vms) warns1))"

definition loadConfig :: "RawConfig \<Rightarrow> LoadedConfig \<times> string list" where
  "loadConfig config =
     (let profiles = loadProfiles (nullish (raw_strategies config) []) []
      in case loadModels profiles (nullish (raw_models config) []) [] [] of
           (vms, warns) \<Rightarrow>
             (\<lparr> virtualModels = vms, strategyProfiles = profiles,
                runtimeReplacement = raw_runtimeReplacement config \<rparr>, warns))"

definition errMissingField :: "string \<Rightarrow> string" where
  "errMissingField modelId =
     ''Model '' @ quoted modelId @ '' has target missing model or provider field''"

definition errMissingWeights :: "string \<Rightarrow> string" where
  "errMissingWeights modelId =
     ''Model '' @ quoted modelId @ '' uses weighted strategy but not all targets have weights''"

text \<open>\<open>!target.model || !target.provider\<close>: a field is missing or the empty string.\<close>

definition falsyString :: "string option \<Rightarrow> bool" where
  "falsyString s = (case s of None \<Rightarrow> True | Some x \<Rightarrow> x = [])"

definition targetIncomplete :: "RawTarget \<Rightarrow> bool" where
  "targetIncomplete t = (falsyString (raw_model t) \<or> falsyString (raw_provider t))"

definition validateModel :: "string \<Rightarrow> LoadedModel \<Rightarrow> string list" where
  "validateModel modelId m =
     map (\<lambda>t. errMissingField modelId) (filter targetIncomplete (l_targets m)) @
     (if l_strategy m = ''weighted''
      then (let hasWeights = list_all (\<lambda>t. raw_weight t \<noteq> None) (l_targets m)
            in if \<not> hasWeights then [errMissingWeights modelId] else [])
      else [])"

definition validateConfig :: "LoadedConfig \<Rightarrow> string list" where
  "validateConfig config =
     concat (map (\<lambda>(modelId, m). validateModel modelId m) (virtualModels config))"

text \<open>A document with one sound model and four faulty ones, for concrete instances.\<close>

definition soundTarget :: RawTarget where
  "soundTarget =
     \<lparr> raw_model = Some ''claude-sonnet-4-6'', raw_provider = Some ''anthropic'',
       raw_weight = None \<rparr>"

definition rawModelWith :: "string option \<Rightarrow> string option \<Rightarrow> RawTarget list option \<Rightarrow> RawModel" where
  "rawModelWith s p ts =
     \<lparr> raw_strategy = s, raw_strategy_profile = p, raw_fallback_on = None,
       raw_cooldown = None, raw_targets = ts \<rparr>"

definition faultyDocument :: RawConfig where
  "faultyDocument =
     \<lparr> raw_models = Some
         [(''good'', rawModelWith (Some ''sequential'') None (Some [soundTarget])),
          (''empty'', rawModelWith (Some ''sequential'') None (Some [])),
          (''orphan'', rawModelWith None (Some ''nope'') (Some [soundTarget])),
          (''partial'', rawModelWith (Some ''sequential'') None
               (Some [soundTarget\<lparr> raw_provider := None \<rparr>])),
          (''unweighted'', rawModelWith (Some ''weighted'') None (Some [soundTarget]))],
       raw_strategies = None, raw_runtimeReplacement = None \<rparr>"

section \<open>Plugin hooks (index.ts)\<close>

text \<open>
  The closure of \<open>VirtualProviderPlugin\<close>: the loaded configuration, read through its
  declared types, the router state, and the two per-session maps. A hook takes the plugin
  state, the clock reading and the random source, and returns them as it leaves them.
\<close>

record PluginState =
  loadedModels :: "string \<rightharpoonup> VirtualModelConfig"
  loadedProfiles :: "string \<rightharpoonup> StrategyProfile"
  routerState :: RouterState
  sessionFallbackCursor :: "string \<rightharpoonup> nat"
  sessionVirtualModel :: "string \<rightharpoonup> string"

text \<open>
  The loops of \<open>chat.message\<close> and \<open>event\<close> over \<open>targets[i]\<close> for \<open>i\<close> from a start index:
  the first index whose target is not in cooldown, with the target to expose. The function
  walks the targets from the start index on, \<open>i\<close> being the index of the first.
\<close>

fun scanTargets ::
  "real \<Rightarrow> TargetModel list \<Rightarrow> nat \<Rightarrow> RouterState \<Rightarrow>
     (nat \<times> ProviderModel) option \<times> RouterState" where
  "scanTargets now [] i st = (None, st)"
| "scanTargets now (t # ts) i st =
     (let mID = normalizeModelID (provider t) (model t);
          mKey = provider t @ ''/'' @ mID
      in case isInCooldown now mKey st of
           (True, st1) \<Rightarrow> scanTargets now ts (i + 1) st1
         | (False, st1) \<Rightarrow> (Some (i, \<lparr> providerID = provider t, modelID = mID \<rparr>), st1))"

subsection \<open>The chat.message hook\<close>

definition chatMessage ::
  "real \<Rightarrow> string \<Rightarrow> ProviderModel option \<Rightarrow> ProviderModel option \<Rightarrow> PluginState \<Rightarrow>
     RandomSource \<Rightarrow> ProviderModel option \<times> PluginState \<times> RandomSource" where
  "chatMessage now sessionID incomingModel outputModel ps rs =
     (let rawModelID =
            nullish (map_option modelID incomingModel)
              (nullish (map_option modelID outputModel) []);
          pID =
            nullish (map_option providerID incomingModel)
              (nullish (map_option providerID outputModel) []);
          virtualModelID =
            (if pID = ''virtual'' then Some (''virtual/'' @ rawModelID)
             else if prefix ''virtual/'' rawModelID then Some rawModelID
             else None)
      in case virtualModelID of
           None \<Rightarrow> (outputModel, ps, rs)
         | Some vmid \<Rightarrow>
             (case loadedModels ps vmid of
                None \<Rightarrow> (outputModel, ps, rs)
              | Some config \<Rightarrow>
                  (let ps1 = ps\<lparr> sessionVirtualModel := (sessionVirtualModel ps)(sessionID \<mapsto> vmid) \<rparr>;
                       cursor = nullish (sessionFallbackCursor ps1 sessionID) 0
                   in case selectTargets vmid config (routerState ps1) rs of
                        (ts, st1, rs1) \<Rightarrow>
                          (case scanTargets now (drop cursor ts) cursor st1 of
                             (None, st2) \<Rightarrow> (outputModel, ps1\<lparr> routerState := st2 \<rparr>, rs1)
                           | (Some (i, resolved), st2) \<Rightarrow>
                               (Some resolved,
                                ps1\<lparr> routerState := st2,
                                     sessionFallbackCursor :=
                                       (sessionFallbackCursor ps1)(sessionID \<mapsto> i) \<rparr>,
                                rs1)))))"

subsection \<open>The event hook\<close>

record SessionError =
  err_name :: "string option"
  err_statusCode :: "int option"

datatype Event =
  SessionErrorEvent "string option" "SessionError option"
  | OtherEvent string

definition shouldFallbackForError ::
  "SessionError \<Rightarrow> VirtualModelConfig \<Rightarrow> (string \<rightharpoonup> StrategyProfile) \<Rightarrow> bool" where
  "shouldFallbackForError err modelConfig profiles =
     (let profile = resolveProfile modelConfig profiles;
          resolved = mergeWithProfile modelConfig profile;
          fallbackOn = r_fallback_on resolved
      in if any_error \<in> set fallbackOn then True
         else if (case err_statusCode err of
                    None \<Rightarrow> False
                  | Some s \<Rightarrow> Status s \<in> set fallbackOn) then True
         else if err_name err = Some ''ProviderAuthError'' then True
         else False)"

text \<open>
  The block \<open>if (currentTarget) { ... }\<close>: the failure and the fallback of the current
  target are counted and its cooldown is set. \<open>targets[currentCursor]\<close> is \<open>undefined\<close>
  beyond the end of the list. A cooldown string that does not parse makes \<open>setCooldown\<close>
  throw, after the two counters have been bumped.
\<close>

definition noteFailure ::
  "real \<Rightarrow> TargetModel list \<Rightarrow> nat \<Rightarrow> VirtualModelConfig \<Rightarrow> (string \<rightharpoonup> StrategyProfile) \<Rightarrow>
     RouterState \<Rightarrow> (error + unit) \<times> RouterState" where
  "noteFailure now ts currentCursor config profiles st =
     (if currentCursor < length ts then
        (let currentTarget = ts ! currentCursor;
             mID = normalizeModelID (provider currentTarget) (model currentTarget);
             mKey = provider currentTarget @ ''/'' @ mID;
             st1 = recordFallback mKey (recordFailure mKey st);
             profile = resolveProfile config profiles;
             resolved = mergeWithProfile config profile
         in case setCooldown now mKey (r_cooldown resolved) st1 of
              Inl e \<Rightarrow> (Inl e, st1)
            | Inr st2 \<Rightarrow> (Inr (), st2))
      else (Inr (), st))"

text \<open>
  What a call of the hook did: returned early at one of its guards, found the list
  exhausted, found every remaining target in cooldown, or re-prompted the session with
  the next target.
\<close>

datatype EventOutcome =
  Ignored
  | Exhausted
  | AllRemainingInCooldown
  | FellBack ProviderModel

text \<open>
  The end of the hook, from \<open>const nextCursor = currentCursor + 1\<close> on: the cursor entry is
  deleted when the next index is beyond the list; otherwise it is set to the next index and
  then to the first index from there on whose target is not in cooldown, if there is one.
\<close>

definition advanceCursor ::
  "real \<Rightarrow> string \<Rightarrow> TargetModel list \<Rightarrow> nat \<Rightarrow> RouterState \<Rightarrow> PluginState \<Rightarrow>
     EventOutcome \<times> PluginState" where
  "advanceCursor now sessionID ts currentCursor st2 ps =
     (let nextCursor = currentCursor + 1
      in if nextCursor \<ge> length ts then
           (Exhausted,
            ps\<lparr> routerState := st2,
                sessionFallbackCursor := (sessionFallbackCursor ps)(sessionID := None) \<rparr>)
         else
           (case scanTargets now (drop nextCursor ts) nextCursor st2 of
              (None, st3) \<Rightarrow>
                (AllRemainingInCooldown,
                 ps\<lparr> routerState := st3,
                     sessionFallbackCursor :=
                       (sessionFallbackCursor ps)(sessionID \<mapsto> nextCursor) \<rparr>)
            | (Some (i, nextResolved), st3) \<Rightarrow>
                (FellBack nextResolved,
                 ps\<lparr> routerState := st3,
                     sessionFallbackCursor := (sessionFallbackCursor ps)(sessionID \<mapsto> i) \<rparr>)))"

text \<open>The hook from \<open>const currentCursor = ...\<close> on, once every guard has been passed.\<close>

definition reportFailure ::
  "real \<Rightarrow> string \<Rightarrow> string \<Rightarrow> VirtualModelConfig \<Rightarrow> PluginState \<Rightarrow> RandomSource \<Rightarrow>
     (error + EventOutcome) \<times> PluginState \<times> RandomSource" where
  "reportFailure now sessionID vmid config ps rs =
     (let currentCursor = nullish (sessionFallbackCursor ps sessionID) 0
      in case selectTargets vmid config (routerState ps) rs of
           (ts, st1, rs1) \<Rightarrow>
             (case noteFailure now ts currentCursor config (loadedProfiles ps) st1 of
                (Inl x, st2) \<Rightarrow> (Inl x, ps\<lparr> routerState := st2 \<rparr>, rs1)
              | (Inr u, st2) \<Rightarrow>
                  (case advanceCursor now sessionID ts currentCursor st2 ps of
                     (outcome, ps1) \<Rightarrow> (Inr outcome, ps1, rs1))))"

definition eventHook ::
  "real \<Rightarrow> Event \<Rightarrow> PluginState \<Rightarrow> RandomSource \<Rightarrow>
     (error + EventOutcome) \<times> PluginState \<times> RandomSource" where
  "eventHook now event ps rs =
     (case event of
        OtherEvent ty \<Rightarrow> (Inr Ignored, ps, rs)
      | SessionErrorEvent None err \<Rightarrow> (Inr Ignored, ps, rs)
      | SessionErrorEvent (Some sessionID) None \<Rightarrow> (Inr Ignored, ps, rs)
      | SessionErrorEvent (Some sessionID) (Some e) \<Rightarrow>
          (if sessionID = [] then (Inr Ignored, ps, rs)
           else
             (case sessionVirtualModel ps sessionID of
                None \<Rightarrow> (Inr Ignored, ps, rs)
              | Some vmid \<Rightarrow>
                  (if vmid = [] then (Inr Ignored, ps, rs)
                   else
                     (case loadedModels ps vmid of
                        None \<Rightarrow> (Inr Ignored, ps, rs)
                      | Some config \<Rightarrow>
                          (if \<not> shouldFallbackForError e config (loadedProfiles ps)
                           then (Inr Ignored, ps, rs)
                           else reportFailure now sessionID vmid config ps rs))))))"

text \<open>Whether a target counts as cooled down in a state at a clock reading.\<close>

definition cooledDown :: "real \<Rightarrow> RouterState \<Rightarrow> TargetModel \<Rightarrow> bool" where
  "cooledDown now st t = fst (isInCooldown now (modelKeyOf t) st)"

text \<open>
  A plugin with the model \<open>virtual/work-build\<close> over two targets and a trigger set
  \<open>{503}\<close>, and a 503 failure report for a session, for concrete instances.
\<close>

definition workTargetA :: TargetModel where
  "workTargetA = \<lparr> model = ''claude-sonnet-4-6'', provider = ''anthropic'', weight = None \<rparr>"

definition workTargetB :: TargetModel where
  "workTargetB =
     \<lparr> model = ''anthropic/claude-sonnet-4-5'', provider = ''openrouter'', weight = None \<rparr>"

definition workBuild :: VirtualModelConfig where
  "workBuild =
     \<lparr> strategy = sequential, strategy_profile = None, vm_fallback_on = Some [503],
       vm_cooldown = None, targets = [workTargetA, workTargetB] \<rparr>"

definition freshPlugin :: PluginState where
  "freshPlugin =
     \<lparr> loadedModels = [''virtual/work-build'' \<mapsto> workBuild], loadedProfiles = Map.empty,
       routerState = createRouterState, sessionFallbackCursor = Map.empty,
       sessionVirtualModel = Map.empty \<rparr>"

definition failure503 :: "string \<Rightarrow> Event" where
  "failure503 sid =
     SessionErrorEvent (Some sid) (Some \<lparr> err_name = None, err_statusCode = Some 503 \<rparr>)"

text \<open>The plugin state after a hook call, and the outcome of an event hook call.\<close>

definition afterChat :: "ProviderModel option \<times> PluginState \<times> RandomSource \<Rightarrow> PluginState" where
  "afterChat r = fst (snd r)"

definition afterEvent ::
  "(error + EventOutcome) \<times> PluginState \<times> RandomSource \<Rightarrow> PluginState" where
  "afterEvent r = fst (snd r)"

text \<open>
  A session on \<open>virtual/work-build\<close>: its first dispatch, and three failure reports in a
  row. And a plugin whose second target is in cooldown, with a session on the first.
\<close>

definition afterDispatch :: PluginState where
  "afterDispatch =
     afterChat (chatMessage 1000 ''sess-1''
       (Some \<lparr> providerID = ''virtual'', modelID = ''work-build'' \<rparr>) None freshPlugin
       (constantSource 0))"

definition afterFirstFailure :: PluginState where
  "afterFirstFailure =
     afterEvent (eventHook 2000 (failure503 ''sess-1'') afterDispatch (constantSource 0))"

definition afterSecondFailure :: PluginState where
  "afterSecondFailure =
     afterEvent (eventHook 3000 (failure503 ''sess-1'') afterFirstFailure (constantSource 0))"

definition afterThirdFailure :: PluginState where
  "afterThirdFailure =
     afterEvent (eventHook 4000 (failure503 ''sess-1'') afterSecondFailure (constantSource 0))"

definition secondCooling :: PluginState where
  "secondCooling =
     freshPlugin
       \<lparr> routerState := createRouterState
            \<lparr> cooldowns := [''openrouter/anthropic/claude-sonnet-4-5'' \<mapsto> 900000] \<rparr>,
         sessionFallbackCursor := [''sess-2'' \<mapsto> 0],
         sessionVirtualModel := [''sess-2'' \<mapsto> ''virtual/work-build''] \<rparr>"

chapter \<open>Verification\<close>

section \<open>Metrics aggregator: the counter invariant\<close>

lemma metricsOf_recordSuccess:
  "metricsOf (recordSuccess k l st) k' =
     (if k' = k
      then (metricsOf st k)\<lparr> requests := requests (metricsOf st k) + 1,
                              successes := successes (metricsOf st k) + 1,
                              totalLatencyMs := totalLatencyMs (metricsOf st k) + l \<rparr>
      else metricsOf st k')"
  by (simp add: recordSuccess_def getOrCreateMetrics_def metricsOf_def nullish_def Let_def
      split: option.splits)

lemma metricsOf_recordFailure:
  "metricsOf (recordFailure k st) k' =
     (if k' = k
      then (metricsOf st k)\<lparr> requests := requests (metricsOf st k) + 1,
                              failures := failures (metricsOf st k) + 1 \<rparr>
      else metricsOf st k')"
  by (simp add: recordFailure_def getOrCreateMetrics_def metricsOf_def nullish_def Let_def
      split: option.splits)

lemma metricsOf_recordFallback:
  "metricsOf (recordFallback k st) k' =
     (if k' = k
      then (metricsOf st k)\<lparr> fallbacks := fallbacks (metricsOf st k) + 1 \<rparr>
      else metricsOf st k')"
  by (simp add: recordFallback_def getOrCreateMetrics_def metricsOf_def nullish_def Let_def
      split: option.splits)

lemma metrics_Some_metricsOf: "metrics st k = Some m \<Longrightarrow> metricsOf st k = m"
  by (simp add: metricsOf_def nullish_def)

lemma runCalls_counts:
  "requests (metricsOf st k) = successes (metricsOf st k) + failures (metricsOf st k) \<Longrightarrow>
   requests (metricsOf (runCalls cs st) k) =
     successes (metricsOf (runCalls cs st) k) + failures (metricsOf (runCalls cs st) k)"
proof (induction cs arbitrary: st)
  case Nil
  then show ?case by simp
next
  case (Cons c cs)
  have "requests (metricsOf (applyCall c st) k) =
        successes (metricsOf (applyCall c st) k) + failures (metricsOf (applyCall c st) k)"
    using Cons.prems
    by (cases c)
       (auto simp add: metricsOf_recordSuccess metricsOf_recordFailure metricsOf_recordFallback)
  then show ?case using Cons.IH by simp
qed

lemma runCalls_latency:
  "totalLatencyMs (metricsOf (runCalls cs st) k) =
     totalLatencyMs (metricsOf st k) + sum_list (latenciesFor k cs)"
proof (induction cs arbitrary: st)
  case Nil
  then show ?case by simp
next
  case (Cons c cs)
  show ?case
    by (cases c)
       (simp_all add: Cons.IH metricsOf_recordSuccess metricsOf_recordFailure
          metricsOf_recordFallback)
qed

lemma recordFallback_other_fields:
  "cooldowns (recordFallback k st) = cooldowns st \<and>
   roundRobinIndex (recordFallback k st) = roundRobinIndex st \<and>
   (k' \<noteq> k \<longrightarrow> metrics (recordFallback k st) k' = metrics st k')"
  by (simp add: recordFallback_def getOrCreateMetrics_def Let_def split: option.splits)

text \<open>
  Claim C10. In every state reached from the empty router state by any run of
  \<open>recordSuccess\<close>, \<open>recordFailure\<close> and \<open>recordFallback\<close> calls, a key that has a metrics
  object satisfies requests = successes + failures, and its totalLatencyMs is the sum of
  the latencies passed to \<open>recordSuccess\<close> for that key. In any state, \<open>recordFallback\<close>
  adds one to the fallbacks counter of its key and leaves requests, successes, failures
  and totalLatencyMs of every key, the metrics objects of the other keys, the cooldowns
  and the round-robin cursors as they were.
\<close>

theorem metrics_counter_invariant:
  "(\<forall>m. metrics (runCalls cs createRouterState) k = Some m \<longrightarrow>
        requests m = successes m + failures m \<and>
        totalLatencyMs m = sum_list (latenciesFor k cs)) \<and>
   requests (metricsOf (recordFallback key st) k) = requests (metricsOf st k) \<and>
   successes (metricsOf (recordFallback key st) k) = successes (metricsOf st k) \<and>
   failures (metricsOf (recordFallback key st) k) = failures (metricsOf st k) \<and>
   totalLatencyMs (metricsOf (recordFallback key st) k) = totalLatencyMs (metricsOf st k) \<and>
   fallbacks (metricsOf (recordFallback key st) key) = fallbacks (metricsOf st key) + 1 \<and>
   (k \<noteq> key \<longrightarrow> metrics (recordFallback key st) k = metrics st k) \<and>
   cooldowns (recordFallback key st) = cooldowns st \<and>
   roundRobinIndex (recordFallback key st) = roundRobinIndex st"
proof -
  have zero: "requests (metricsOf createRouterState k) =
      successes (metricsOf createRouterState k) + failures (metricsOf createRouterState k)"
    "totalLatencyMs (metricsOf createRouterState k) = 0"
    by (simp_all add: metricsOf_def createRouterState_def nullish_def)
  have a: "\<forall>m. metrics (runCalls cs createRouterState) k = Some m \<longrightarrow>
        requests m = successes m + failures m \<and>
        totalLatencyMs m = sum_list (latenciesFor k cs)"
    using runCalls_counts [OF zero(1), of cs] runCalls_latency [of cs createRouterState k] zero(2)
    by (auto dest!: metrics_Some_metricsOf)
  show ?thesis
    using a recordFallback_other_fields [of key st k]
    by (simp add: metricsOf_recordFallback)
qed

theorem metrics_counter_invariant_witness:
  "metrics (runCalls [RecordSuccess ''a/b'' 120, RecordFailure ''a/b'', RecordFallback ''a/b'',
       RecordFailure ''c/d'', RecordSuccess ''a/b'' 80] createRouterState) ''a/b''
     = Some \<lparr> requests = 3, successes = 2, failures = 1, fallbacks = 1, totalLatencyMs = 200 \<rparr> \<and>
   (3::nat) = 2 + 1 \<and>
   (200::real) = sum_list (latenciesFor ''a/b'' [RecordSuccess ''a/b'' 120, RecordFailure ''a/b'',
       RecordFallback ''a/b'', RecordFailure ''c/d'', RecordSuccess ''a/b'' 80]) \<and>
   metrics (recordFallback ''a/b'' createRouterState) ''c/d'' = metrics createRouterState ''c/d''"
proof -
  let ?cs = "[RecordSuccess ''a/b'' 120, RecordFailure ''a/b'', RecordFallback ''a/b'',
       RecordFailure ''c/d'', RecordSuccess ''a/b'' 80]"
  have e: "metrics (runCalls ?cs createRouterState) ''a/b''
     = Some \<lparr> requests = 3, successes = 2, failures = 1, fallbacks = 1, totalLatencyMs = 200 \<rparr>"
    by (simp add: recordSuccess_def recordFailure_def recordFallback_def getOrCreateMetrics_def
        createRouterState_def Let_def)
  have ne: "''c/d'' \<noteq> ''a/b''" by simp
  from metrics_counter_invariant [of ?cs "''a/b''" "''a/b''" createRouterState]
       metrics_counter_invariant [of "[]" "''c/d''" "''a/b''" createRouterState] e ne
  show ?thesis by simp
qed

section \<open>Config merge: the merged policy\<close>

text \<open>
  Claim C6. The merged policy takes its fallback trigger set from the model when the model
  has one, else from the profile when the profile has one, else it is exactly 429, 500,
  503; its cooldown from the model, else from the profile, else none; max_retries from the
  profile only (0 without one) whatever the model is; the backoff spec from the profile
  only; and the on-failure policy from the profile, else \<open>continue_with_next\<close>.
\<close>

theorem merge_policy:
  "(vm_fallback_on m = Some codes \<longrightarrow>
      r_fallback_on (mergeWithProfile m p) = map Status codes) \<and>
   (vm_fallback_on m = None \<and> p = Some pr \<and> fallback_on pr = Some f \<longrightarrow>
      r_fallback_on (mergeWithProfile m p) = f) \<and>
   (vm_fallback_on m = None \<and> (p = None \<or> (p = Some pr \<and> fallback_on pr = None)) \<longrightarrow>
      r_fallback_on (mergeWithProfile m p) = [Status 429, Status 500, Status 503]) \<and>
   (vm_cooldown m = Some c \<longrightarrow> r_cooldown (mergeWithProfile m p) = Some c) \<and>
   (vm_cooldown m = None \<and> p = Some pr \<longrightarrow>
      r_cooldown (mergeWithProfile m p) = cooldown pr) \<and>
   (vm_cooldown m = None \<and> p = None \<longrightarrow> r_cooldown (mergeWithProfile m p) = None) \<and>
   (p = Some pr \<and> max_retries pr = Some n \<longrightarrow> r_max_retries (mergeWithProfile m p) = n) \<and>
   (p = None \<or> (p = Some pr \<and> max_retries pr = None) \<longrightarrow>
      r_max_retries (mergeWithProfile m p) = 0) \<and>
   r_max_retries (mergeWithProfile m p) = r_max_retries (mergeWithProfile m' p) \<and>
   (p = Some pr \<longrightarrow> r_backoff (mergeWithProfile m p) = backoff pr) \<and>
   (p = None \<longrightarrow> r_backoff (mergeWithProfile m p) = None) \<and>
   r_backoff (mergeWithProfile m p) = r_backoff (mergeWithProfile m' p) \<and>
   (p = Some pr \<and> on_fail pr = Some o_f \<longrightarrow> r_on_fail (mergeWithProfile m p) = o_f) \<and>
   (p = None \<or> (p = Some pr \<and> on_fail pr = None) \<longrightarrow>
      r_on_fail (mergeWithProfile m p) = continue_with_next)"
  by (auto simp add: mergeWithProfile_def nullish_def Let_def)

theorem merge_policy_witness:
  "r_fallback_on (mergeWithProfile exampleModel (Some exampleProfile)) = [Status 429] \<and>
   r_fallback_on (mergeWithProfile (exampleModel\<lparr> vm_fallback_on := None \<rparr>)
      (Some exampleProfile)) = [Status 503] \<and>
   r_fallback_on (mergeWithProfile (exampleModel\<lparr> vm_fallback_on := None \<rparr>) None)
      = [Status 429, Status 500, Status 503] \<and>
   r_cooldown (mergeWithProfile exampleModel (Some exampleProfile)) = Some ''1m'' \<and>
   r_cooldown (mergeWithProfile (exampleModel\<lparr> vm_cooldown := Some ''5m'' \<rparr>)
      (Some exampleProfile)) = Some ''5m'' \<and>
   r_cooldown (mergeWithProfile exampleModel None) = None \<and>
   r_max_retries (mergeWithProfile exampleModel (Some exampleProfile)) = 2 \<and>
   r_max_retries (mergeWithProfile exampleModel None) = 0 \<and>
   r_backoff (mergeWithProfile exampleModel (Some exampleProfile)) = None \<and>
   r_on_fail (mergeWithProfile exampleModel (Some exampleProfile)) = continue_with_next"
  using
    merge_policy [of exampleModel "[429]" "Some exampleProfile" exampleProfile
      "[Status 503]" "''1m''" 2 exampleModel throw]
    merge_policy [of "exampleModel\<lparr> vm_fallback_on := None \<rparr>" "[]" "Some exampleProfile"
      exampleProfile "[Status 503]" "''1m''" 2 exampleModel throw]
    merge_policy [of "exampleModel\<lparr> vm_fallback_on := None \<rparr>" "[]" None
      exampleProfile "[Status 503]" "''1m''" 2 exampleModel throw]
    merge_policy [of "exampleModel\<lparr> vm_cooldown := Some ''5m'' \<rparr>" "[429]" "Some exampleProfile"
      exampleProfile "[Status 503]" "''5m''" 2 exampleModel throw]
    merge_policy [of exampleModel "[429]" None exampleProfile
      "[Status 503]" "''1m''" 2 exampleModel throw]
  by (simp add: exampleModel_def exampleProfile_def)

section \<open>Duration parser: the accepted format\<close>

lemma rmatch_Plus_Digit_Nil: "rmatch (Plus Digit) [] = []"
  by (subst rmatch.simps(6)) simp

lemma rmatch_Plus_Digit_Cons:
  "rmatch (Plus Digit) (c # cs) = (if isDigit c then rmatch (Plus Digit) cs @ [cs] else [])"
  by (subst rmatch.simps(6)) simp

lemma set_rmatch_Plus_Digit:
  "set (rmatch (Plus Digit) s) = {r. \<exists>ds. allDigits ds \<and> s = ds @ r}"
proof (induction s)
  case Nil
  show ?case by (auto simp add: allDigits_def rmatch_Plus_Digit_Nil)
next
  case (Cons c cs)
  show ?case
  proof (cases "isDigit c")
    case False
    have "\<And>ds r. allDigits ds \<Longrightarrow> c # cs = ds @ r \<Longrightarrow> False"
      using False by (auto simp add: allDigits_def Cons_eq_append_conv)
    then show ?thesis using False
      by (auto simp only: rmatch_Plus_Digit_Cons if_False set_simps)
  next
    case True
    have "{r. \<exists>ds. allDigits ds \<and> c # cs = ds @ r} =
          insert cs {r. \<exists>ds. allDigits ds \<and> cs = ds @ r}" (is "?L = ?R")
    proof (intro set_eqI iffI)
      fix r assume "r \<in> ?L"
      then obtain ds where ds: "allDigits ds" "c # cs = ds @ r" by blast
      then obtain ds' where ds': "ds = c # ds'" "cs = ds' @ r"
        by (auto simp add: allDigits_def Cons_eq_append_conv)
      show "r \<in> ?R"
      proof (cases "ds' = []")
        case True
        then show ?thesis using ds' by simp
      next
        case False
        then have "allDigits ds'" using ds(1) ds'(1) by (simp add: allDigits_def)
        then show ?thesis using ds'(2) by blast
      qed
    next
      fix r assume "r \<in> ?R"
      then consider "r = cs" | ds where "allDigits ds" "cs = ds @ r" by blast
      then show "r \<in> ?L"
      proof cases
        case 1
        have "allDigits [c]" using True by (simp add: allDigits_def)
        moreover have "c # cs = [c] @ r" using 1 by simp
        ultimately show ?thesis by blast
      next
        case 2
        have "allDigits (c # ds)" using True 2(1) by (simp add: allDigits_def)
        moreover have "c # cs = (c # ds) @ r" using 2(2) by simp
        ultimately show ?thesis by blast
      qed
    qed
    then show ?thesis using True Cons.IH
      by (simp only: rmatch_Plus_Digit_Cons if_True set_append set_simps) auto
  qed
qed

lemma set_rmatch_Lit: "set (rmatch (Lit l) s) = {r. s = l @ r}"
  by (auto simp add: prefix_def)

lemma set_rmatch_magnitudeGroup:
  "set (rmatch magnitudeGroup s) = {r. \<exists>m. magnitudeString m \<and> s = m @ r}"
proof -
  have "set (rmatch magnitudeGroup s) =
        (\<Union>r1 \<in> {r. \<exists>ds. allDigits ds \<and> s = ds @ r}.
           (\<Union>r2 \<in> {r. r1 = ''.'' @ r}. {r. \<exists>ds. allDigits ds \<and> r2 = ds @ r}) \<union> {r1})"
    unfolding magnitudeGroup_def
    by (simp only: rmatch.simps(3,5) set_concat set_map set_append set_rmatch_Plus_Digit
        set_rmatch_Lit image_image) auto
  also have "\<dots> = {r. \<exists>m. magnitudeString m \<and> s = m @ r}"
    unfolding magnitudeString_def
    apply (intro set_eqI iffI)
     apply (clarsimp; metis append.assoc append_Cons append_Nil)
    apply (clarsimp; metis append.assoc append_Cons append_Nil)
    done
  finally show ?thesis .
qed

lemma unitGroup_end: "([] \<in> set (rmatch unitGroup r)) = (r \<in> {''ms'', ''s'', ''m'', ''h''})"
  unfolding unitGroup_def
  by (simp only: rmatch.simps(4) set_append set_rmatch_Lit) auto

lemma durationMatch_Some:
  assumes "durationMatch s = Some (m1, u)"
  shows "magnitudeString m1 \<and> u \<in> {''ms'', ''s'', ''m'', ''h''} \<and> s = m1 @ u"
proof -
  from assms obtain rest where f:
    "filter (\<lambda>r1. [] \<in> set (rmatch unitGroup r1)) (rmatch magnitudeGroup s) = u # rest"
    and m1: "m1 = take (length s - length u) s"
    by (auto simp add: durationMatch_def split: list.splits)
  have "u \<in> set (filter (\<lambda>r1. [] \<in> set (rmatch unitGroup r1)) (rmatch magnitudeGroup s))"
    by (simp only: f list.set_intros)
  then have u: "u \<in> set (rmatch magnitudeGroup s)" "[] \<in> set (rmatch unitGroup u)"
    by simp_all
  from u(1) obtain m where m: "magnitudeString m" "s = m @ u"
    by (auto simp only: set_rmatch_magnitudeGroup mem_Collect_eq)
  have "m1 = m" using m1 m(2) by simp
  then show ?thesis using m u(2) by (simp only: unitGroup_end)
qed

lemma durationMatch_None:
  assumes "durationMatch s = None" "magnitudeString m" "u \<in> {''ms'', ''s'', ''m'', ''h''}"
  shows "s \<noteq> m @ u"
proof
  assume s: "s = m @ u"
  have "u \<in> set (rmatch magnitudeGroup s)"
    using assms(2) s by (auto simp only: set_rmatch_magnitudeGroup mem_Collect_eq)
  moreover have "[] \<in> set (rmatch unitGroup u)"
    using assms(3) by (simp only: unitGroup_end)
  ultimately have
    "u \<in> set (filter (\<lambda>r1. [] \<in> set (rmatch unitGroup r1)) (rmatch magnitudeGroup s))"
    by simp
  moreover have
    "filter (\<lambda>r1. [] \<in> set (rmatch unitGroup r1)) (rmatch magnitudeGroup s) = []"
    using assms(1) by (auto simp add: durationMatch_def split: list.splits)
  ultimately show False by simp
qed

lemma magnitudeString_chars: "magnitudeString m \<Longrightarrow> list_all magnitudeChar m"
  by (auto simp add: magnitudeString_def allDigits_def magnitudeChar_def list_all_iff)

lemma unit_head: "u \<in> {''ms'', ''s'', ''m'', ''h''} \<Longrightarrow> takeWhile magnitudeChar u = []"
  by (auto simp add: magnitudeChar_def isDigit_def)

lemma split_takeWhile:
  assumes "magnitudeString m" "u \<in> {''ms'', ''s'', ''m'', ''h''}"
  shows "takeWhile magnitudeChar (m @ u) = m"
proof -
  have "\<And>x. x \<in> set m \<Longrightarrow> magnitudeChar x"
    using magnitudeString_chars [OF assms(1)] by (simp add: list_all_iff)
  then have "takeWhile magnitudeChar (m @ u) = m @ takeWhile magnitudeChar u"
    by (rule takeWhile_append2)
  then show ?thesis using unit_head [OF assms(2)] by simp
qed

lemma split_unique:
  assumes "magnitudeString m" "u \<in> {''ms'', ''s'', ''m'', ''h''}"
    "magnitudeString m'" "u' \<in> {''ms'', ''s'', ''m'', ''h''}" "m @ u = m' @ u'"
  shows "m = m' \<and> u = u'"
proof -
  have "m = takeWhile magnitudeChar (m @ u)"
    using split_takeWhile [OF assms(1,2)] by simp
  also have "\<dots> = m'"
    using split_takeWhile [OF assms(3,4)] assms(5) by simp
  finally have "m = m'" .
  then show ?thesis using assms(5) by simp
qed

lemma takeWhile_allDigits: "list_all isDigit ds \<Longrightarrow> takeWhile isDigit ds = ds"
  by (simp add: list_all_iff)

lemma not_isDigit_dot: "\<not> isDigit CHR ''.''"
  by (simp add: isDigit_def)

lemma parseFloat_integer:
  assumes "allDigits ip"
  shows "parseFloat ip = Some (magnitudeValue ip [])"
proof -
  have ip: "\<forall>x\<in>set ip. isDigit x" "ip \<noteq> []"
    using assms by (simp_all add: allDigits_def list_all_iff)
  have t: "takeWhile isDigit ip = ip" using ip(1) by simp
  have d: "dropWhile isDigit ip = []" using ip(1) by simp
  show ?thesis
    by (simp only: parseFloat_def t d Let_def list.case magnitudeValue_def) (simp add: ip(2))
qed

lemma parseFloat_decimal:
  assumes "allDigits ip" "allDigits fp"
  shows "parseFloat (ip @ ''.'' @ fp) = Some (magnitudeValue ip fp)"
proof -
  have ip: "\<And>x. x \<in> set ip \<Longrightarrow> isDigit x" "ip \<noteq> []"
    using assms(1) by (simp_all add: allDigits_def list_all_iff)
  have t: "takeWhile isDigit (ip @ ''.'' @ fp) = ip"
    using takeWhile_append2 [of ip isDigit "''.'' @ fp"] ip(1) not_isDigit_dot by simp
  have d: "dropWhile isDigit (ip @ ''.'' @ fp) = CHR ''.'' # fp"
    using dropWhile_append2 [of ip isDigit "''.'' @ fp"] ip(1) not_isDigit_dot by simp
  have f: "takeWhile isDigit fp = fp"
    using assms(2) by (simp add: allDigits_def takeWhile_allDigits)
  show ?thesis
    by (simp only: parseFloat_def t d f Let_def list.case if_True magnitudeValue_def)
       (simp add: ip(2))
qed

lemma parseFloat_magnitudeString:
  "magnitudeString m \<Longrightarrow> \<exists>v. parseFloat m = Some v"
  unfolding magnitudeString_def using parseFloat_integer parseFloat_decimal by blast

lemma parseDuration_of_split:
  assumes "magnitudeString m" "u \<in> {''ms'', ''s'', ''m'', ''h''}" "parseFloat m = Some x"
  shows "parseDuration (m @ u) = Inr (x * unitFactor u)"
proof (cases "durationMatch (m @ u)")
  case None
  from durationMatch_None [OF None assms(1,2)] show ?thesis by simp
next
  case (Some p)
  obtain m1 u1 where p: "p = (m1, u1)" by (cases p)
  from durationMatch_Some [OF Some [unfolded p]]
  have "magnitudeString m1" "u1 \<in> {''ms'', ''s'', ''m'', ''h''}" "m @ u = m1 @ u1"
    by simp_all
  from split_unique [OF assms(1,2) this] have e: "m1 = m" "u1 = u" by simp_all
  show ?thesis
    using assms(2,3) by (auto simp add: parseDuration_def Some p e unitFactor_def)
qed

text \<open>
  Over exact reals \<open>parseDuration\<close> returns a number exactly on the strings of the
  duration format, the magnitude times 1, 1000, 60000 or 3600000, and raises the
  invalid-duration error on every other string.
\<close>

lemma parseDuration_exact_format:
  "(parseDuration s = Inr v \<longleftrightarrow> durationFormat s v) \<and>
   ((\<forall>x. parseDuration s \<noteq> Inr x) \<longrightarrow> parseDuration s = Inl (Invalid_duration s))"
proof (intro conjI iffI impI)
  assume r: "parseDuration s = Inr v"
  then obtain m1 u where mu: "durationMatch s = Some (m1, u)"
    by (auto simp add: parseDuration_def split: option.splits)
  from durationMatch_Some [OF mu]
  have m1: "magnitudeString m1" and u: "u \<in> {''ms'', ''s'', ''m'', ''h''}" and s: "s = m1 @ u"
    by simp_all
  from parseFloat_magnitudeString [OF m1] obtain x where x: "parseFloat m1 = Some x" ..
  from parseDuration_of_split [OF m1 u x] r s have v: "v = x * unitFactor u" by simp
  from m1 obtain ip where ip: "allDigits ip"
    and c: "m1 = ip \<or> (\<exists>fp. allDigits fp \<and> m1 = ip @ ''.'' @ fp)"
    unfolding magnitudeString_def by blast
  from c show "durationFormat s v"
  proof
    assume e: "m1 = ip"
    then have "x = magnitudeValue ip []" using x parseFloat_integer [OF ip] by simp
    then show ?thesis
      using durationFormat.integer_magnitude [OF ip u] s e v by simp
  next
    assume "\<exists>fp. allDigits fp \<and> m1 = ip @ ''.'' @ fp"
    then obtain fp where fp: "allDigits fp" and e: "m1 = ip @ ''.'' @ fp" by blast
    then have "x = magnitudeValue ip fp" using x parseFloat_decimal [OF ip fp] by simp
    then show ?thesis
      using durationFormat.decimal_magnitude [OF ip fp u] s e v by simp
  qed
next
  assume "durationFormat s v"
  then show "parseDuration s = Inr v"
  proof cases
    case (integer_magnitude ip u)
    have "magnitudeString ip" using integer_magnitude(3)
      by (auto simp add: magnitudeString_def)
    from parseDuration_of_split [OF this integer_magnitude(4)
        parseFloat_integer [OF integer_magnitude(3)]]
    show ?thesis using integer_magnitude(1,2) by simp
  next
    case (decimal_magnitude ip fp u)
    have "magnitudeString (ip @ ''.'' @ fp)" using decimal_magnitude(3,4)
      by (auto simp add: magnitudeString_def)
    from parseDuration_of_split [OF this decimal_magnitude(5)
        parseFloat_decimal [OF decimal_magnitude(3,4)]]
    show ?thesis using decimal_magnitude(1,2) by simp
  qed
next
  assume n: "\<forall>x. parseDuration s \<noteq> Inr x"
  show "parseDuration s = Inl (Invalid_duration s)"
  proof (cases "durationMatch s")
    case None
    then show ?thesis by (simp add: parseDuration_def)
  next
    case (Some p)
    obtain m1 u where p: "p = (m1, u)" by (cases p)
    from durationMatch_Some [OF Some [unfolded p]]
    have m1: "magnitudeString m1" and u: "u \<in> {''ms'', ''s'', ''m'', ''h''}" and s: "s = m1 @ u"
      by simp_all
    from parseFloat_magnitudeString [OF m1] obtain x where x: "parseFloat m1 = Some x" ..
    from parseDuration_of_split [OF m1 u x] n s show ?thesis by simp
  qed
qed

subsection \<open>The double parseDuration returns\<close>

lemma parseFloatIEEE_integer:
  assumes "allDigits ip"
  shows "parseFloatIEEE ip = Some (magnitudeDouble ip [])"
proof -
  have ip: "\<forall>x\<in>set ip. isDigit x" "ip \<noteq> []"
    using assms by (simp_all add: allDigits_def list_all_iff)
  have t: "takeWhile isDigit ip = ip" using ip(1) by simp
  have d: "dropWhile isDigit ip = []" using ip(1) by simp
  show ?thesis
    by (simp only: parseFloatIEEE_def t d Let_def list.case magnitudeDouble_def)
       (simp add: ip(2))
qed

lemma parseFloatIEEE_decimal:
  assumes "allDigits ip" "allDigits fp"
  shows "parseFloatIEEE (ip @ ''.'' @ fp) = Some (magnitudeDouble ip fp)"
proof -
  have ip: "\<And>x. x \<in> set ip \<Longrightarrow> isDigit x" "ip \<noteq> []"
    using assms(1) by (simp_all add: allDigits_def list_all_iff)
  have t: "takeWhile isDigit (ip @ ''.'' @ fp) = ip"
    using takeWhile_append2 [of ip isDigit "''.'' @ fp"] ip(1) not_isDigit_dot by simp
  have d: "dropWhile isDigit (ip @ ''.'' @ fp) = CHR ''.'' # fp"
    using dropWhile_append2 [of ip isDigit "''.'' @ fp"] ip(1) not_isDigit_dot by simp
  have f: "takeWhile isDigit fp = fp"
    using assms(2) by (simp add: allDigits_def takeWhile_allDigits)
  show ?thesis
    by (simp only: parseFloatIEEE_def t d f Let_def list.case if_True magnitudeDouble_def)
       (simp add: ip(2))
qed

lemma parseFloatIEEE_magnitudeString:
  "magnitudeString m \<Longrightarrow> \<exists>v. parseFloatIEEE m = Some v"
  unfolding magnitudeString_def using parseFloatIEEE_integer parseFloatIEEE_decimal by blast

lemma parseDurationIEEE_of_split:
  assumes "magnitudeString m" "u \<in> {''ms'', ''s'', ''m'', ''h''}" "parseFloatIEEE m = Some x"
  shows "parseDurationIEEE (m @ u) = Inr (unitProduct u x)"
proof (cases "durationMatch (m @ u)")
  case None
  from durationMatch_None [OF None assms(1,2)] show ?thesis by simp
next
  case (Some p)
  obtain m1 u1 where p: "p = (m1, u1)" by (cases p)
  from durationMatch_Some [OF Some [unfolded p]]
  have "magnitudeString m1" "u1 \<in> {''ms'', ''s'', ''m'', ''h''}" "m @ u = m1 @ u1"
    by simp_all
  from split_unique [OF assms(1,2) this] have e: "m1 = m" "u1 = u" by simp_all
  show ?thesis
    using assms(2,3) by (auto simp add: parseDurationIEEE_def Some p e unitProduct_def)
qed

lemma parseDurationIEEE_format:
  "parseDurationIEEE s = Inr d \<longleftrightarrow> durationFormatIEEE s d"
proof
  assume r: "parseDurationIEEE s = Inr d"
  then obtain m1 u where mu: "durationMatch s = Some (m1, u)"
    by (auto simp add: parseDurationIEEE_def split: option.splits)
  from durationMatch_Some [OF mu]
  have m1: "magnitudeString m1" and u: "u \<in> {''ms'', ''s'', ''m'', ''h''}" and s: "s = m1 @ u"
    by simp_all
  from parseFloatIEEE_magnitudeString [OF m1] obtain x where x: "parseFloatIEEE m1 = Some x" ..
  from parseDurationIEEE_of_split [OF m1 u x] r s have v: "d = unitProduct u x" by simp
  from m1 obtain ip where ip: "allDigits ip"
    and c: "m1 = ip \<or> (\<exists>fp. allDigits fp \<and> m1 = ip @ ''.'' @ fp)"
    unfolding magnitudeString_def by blast
  from c show "durationFormatIEEE s d"
  proof
    assume e: "m1 = ip"
    then have "x = magnitudeDouble ip []" using x parseFloatIEEE_integer [OF ip] by simp
    then show ?thesis
      using durationFormatIEEE.integer_double [OF ip u] s e v by simp
  next
    assume "\<exists>fp. allDigits fp \<and> m1 = ip @ ''.'' @ fp"
    then obtain fp where fp: "allDigits fp" and e: "m1 = ip @ ''.'' @ fp" by blast
    then have "x = magnitudeDouble ip fp" using x parseFloatIEEE_decimal [OF ip fp] by simp
    then show ?thesis
      using durationFormatIEEE.decimal_double [OF ip fp u] s e v by simp
  qed
next
  assume "durationFormatIEEE s d"
  then show "parseDurationIEEE s = Inr d"
  proof cases
    case (integer_double ip u)
    have "magnitudeString ip" using integer_double(3)
      by (auto simp add: magnitudeString_def)
    from parseDurationIEEE_of_split [OF this integer_double(4)
        parseFloatIEEE_integer [OF integer_double(3)]]
    show ?thesis using integer_double(1,2) by simp
  next
    case (decimal_double ip fp u)
    have "magnitudeString (ip @ ''.'' @ fp)" using decimal_double(3,4)
      by (auto simp add: magnitudeString_def)
    from parseDurationIEEE_of_split [OF this decimal_double(5)
        parseFloatIEEE_decimal [OF decimal_double(3,4)]]
    show ?thesis using decimal_double(1,2) by simp
  qed
qed

lemma parseDurationIEEE_error:
  assumes "\<forall>x. parseDurationIEEE s \<noteq> Inr x"
  shows "parseDurationIEEE s = Inl (Invalid_duration s)"
proof (cases "durationMatch s")
  case None
  then show ?thesis by (simp add: parseDurationIEEE_def)
next
  case (Some p)
  obtain m1 u where p: "p = (m1, u)" by (cases p)
  from durationMatch_Some [OF Some [unfolded p]]
  have m1: "magnitudeString m1" and u: "u \<in> {''ms'', ''s'', ''m'', ''h''}" and s: "s = m1 @ u"
    by simp_all
  from parseFloatIEEE_magnitudeString [OF m1] obtain x where x: "parseFloatIEEE m1 = Some x" ..
  from parseDurationIEEE_of_split [OF m1 u x] assms s show ?thesis by simp
qed

lemma log2Floor_multiple:
  assumes "0 < N" "0 < b"
  shows "\<exists>e. log2Floor (N * b) b = int e \<and> 2 ^ e \<le> N \<and> N < 2 ^ (e + 1)"
proof -
  let ?la = "floorlog 2 (N * b)" and ?lb = "floorlog 2 b"
  have nb: "0 < N * b" using assms by simp
  have "?lb \<noteq> 0" using assms(2) floorlog_eq_zero_iff [of 2 b] by simp
  then obtain p where p: "?lb = Suc p" by (cases ?lb) simp_all
  have bb: "2 ^ p \<le> b" "b < 2 ^ Suc p"
    using floorlog_bounds [of b 2] assms(2) by (simp_all add: p)
  have le: "?lb \<le> ?la" using assms(1) by (intro floorlog_mono) simp
  define d where "d = ?la - ?lb"
  have la: "?la = Suc (d + p)" using le by (simp add: d_def p)
  have ab: "2 ^ (d + p) \<le> N * b" "N * b < 2 ^ Suc (d + p)"
    using floorlog_bounds [of "N * b" 2] nb by (simp_all add: la)
  have di: "int ?la - int ?lb = int d" using le by (simp add: d_def)
  have test: "(if 0 \<le> int d then b * 2 ^ nat (int d) \<le> N * b else b \<le> N * b * 2 ^ nat (- int d))
      = (2 ^ d \<le> N)"
    using assms(2) by (simp add: mult.commute)
  show ?thesis
  proof (cases "2 ^ d \<le> N")
    case True
    have l: "log2Floor (N * b) b = int d"
      unfolding log2Floor_def Let_def di test using True by simp
    have "N * 2 ^ p \<le> N * b" using bb(1) by simp
    also have "\<dots> < 2 ^ Suc (d + p)" by (fact ab(2))
    also have "\<dots> = 2 ^ (d + 1) * 2 ^ p"
      by (simp add: power_add)
    finally have "N < 2 ^ (d + 1)" by simp
    then show ?thesis using l True by blast
  next
    case False
    then obtain d' where d': "d = Suc d'" using assms(1) by (cases d) simp_all
    have l: "log2Floor (N * b) b = int d'"
      unfolding log2Floor_def Let_def di test using False d' by simp
    have "2 ^ d' * 2 ^ Suc p = (2::nat) ^ (d + p)"
      by (simp add: d' power_add)
    also have "\<dots> \<le> N * b" by (fact ab(1))
    also have "\<dots> < N * 2 ^ Suc p" using bb(2) assms(1) by simp
    finally have "2 ^ d' < N" by simp
    moreover have "N < 2 ^ (d' + 1)" using False d' by simp
    ultimately show ?thesis using l by (intro exI [of _ d']) simp
  qed
qed

lemma roundHalfEven_multiple: "0 < b \<Longrightarrow> roundHalfEven (n * b) b = n"
  by (simp add: roundHalfEven_def)

lemma roundRatio_multiple:
  assumes "N < 2 ^ 53" "0 < b"
  shows "\<exists>k. roundRatio (N * b) b = Dbl (N * 2 ^ k) (- int k)"
proof (cases "N = 0")
  case True
  have "roundRatio (N * b) b = Dbl (N * 2 ^ 0) (- int 0)"
    by (simp add: True roundRatio_def)
  then show ?thesis by blast
next
  case False
  then have N: "0 < N" by simp
  from log2Floor_multiple [OF N assms(2)] obtain e where
    e: "log2Floor (N * b) b = int e" "2 ^ e \<le> N" "N < 2 ^ (e + 1)" by blast
  have "(2::nat) ^ e < 2 ^ 53" using e(2) assms(1) by simp
  then have "e < 53" by (rule power_less_imp_less_exp [rotated]) simp
  then have e52: "e \<le> 52" by simp
  define k where "k = 52 - e"
  have q: "max (log2Floor (N * b) b - 52) (- 1074) = - int k"
    using e52 by (simp add: e(1) k_def)
  have "N * 2 ^ k < 2 ^ (e + 1) * 2 ^ k" using e(3) by simp
  also have "\<dots> = 2 ^ 53" using e52 by (simp add: k_def flip: power_add)
  finally have lt: "N * 2 ^ k < 2 ^ 53" .
  have n: "(if 0 \<le> - int k then roundHalfEven (N * b) (b * 2 ^ nat (- int k))
            else roundHalfEven (N * b * 2 ^ nat (- (- int k))) b) = N * 2 ^ k"
  proof (cases "k = 0")
    case True
    then show ?thesis using roundHalfEven_multiple [OF assms(2), of N] by simp
  next
    case False
    have "N * b * 2 ^ k = (N * 2 ^ k) * b" by simp
    then have "roundHalfEven (N * b * 2 ^ k) b = N * 2 ^ k"
      using roundHalfEven_multiple [OF assms(2), of "N * 2 ^ k"] by (simp only:)
    then show ?thesis using False by simp
  qed
  have m: "makeDouble (N * 2 ^ k) (- int k) = Dbl (N * 2 ^ k) (- int k)"
    using lt N by (simp add: makeDouble_def)
  have "roundRatio (N * b) b = Dbl (N * 2 ^ k) (- int k)"
    using N assms(2) by (simp only: roundRatio_def Let_def q n m) simp
  then show ?thesis by blast
qed

lemma exact_doubleValue: "doubleValue (Dbl (N * 2 ^ k) (- int k)) = Some (real N)"
  by (simp add: doubleValue_def)

lemma timesDouble_exact:
  assumes d: "d = Dbl (N * 2 ^ k) (- int k)" and "N * c < 2 ^ 53"
  shows "\<exists>k'. timesDouble d c = Dbl (N * c * 2 ^ k') (- int k')"
proof -
  have "timesDouble d c = roundRatio (N * c * 2 ^ k) (2 ^ k)"
  proof (cases "k = 0")
    case True
    then show ?thesis by (simp add: d timesDouble_def)
  next
    case False
    then show ?thesis by (simp add: d timesDouble_def ac_simps)
  qed
  then show ?thesis using roundRatio_multiple [OF assms(2), of "2 ^ k"] by simp
qed

lemma roundHalfEven_ge: "a div b \<le> roundHalfEven a b"
  by (simp add: roundHalfEven_def Let_def)

lemma roundRatio_overflow:
  assumes "2 ^ 1024 \<le> N"
  shows "roundRatio N 1 = Infinity"
proof -
  have N: "0 < N" using assms by (simp add: Suc_le_eq [symmetric] order_trans [OF _ assms])
  from log2Floor_multiple [OF N, of 1] obtain e where
    e: "log2Floor N 1 = int e" "2 ^ e \<le> N" "N < 2 ^ (e + 1)" by auto
  have "(2::nat) ^ 1024 < 2 ^ (e + 1)" using assms e(3) by (rule le_less_trans)
  then have "1024 < e + 1" by (rule power_less_imp_less_exp [rotated]) simp
  then have e1024: "1024 \<le> e" by simp
  define q where "q = e - 52"
  have q: "max (log2Floor N 1 - 52) (- 1074) = int q" "0 \<le> int q" "971 < int q"
    using e1024 e(1) by (simp_all add: q_def)
  let ?n = "roundHalfEven N (1 * 2 ^ nat (int q))"
  have "(2::nat) ^ q \<le> 2 ^ e" by (simp add: q_def)
  then have "2 ^ q \<le> N" using e(2) by (rule order_trans)
  then have "0 < N div 2 ^ q" by (simp add: div_greater_zero_iff)
  then have n: "?n \<noteq> 0" using roundHalfEven_ge [of N "2 ^ q"] by simp
  have "makeDouble ?n (int q) = Infinity"
    using n q(3) by (simp add: makeDouble_def)
  then show ?thesis
    using N by (simp only: roundRatio_def Let_def q(1) q(2) if_True) simp
qed

lemma digitsVal_Nil: "digitsVal [] = 0"
  by (simp add: digitsVal_def)

lemma magnitudeDouble_integer: "magnitudeDouble ip [] = roundRatio (digitsVal ip * 1) 1"
  by (simp add: magnitudeDouble_def digitsVal_Nil)

lemma unitProduct_eval:
  "unitProduct ''ms'' d = d"
  "unitProduct ''s'' d = timesDouble d 1000"
  "unitProduct ''m'' d = timesDouble (timesDouble d 60) 1000"
  "unitProduct ''h'' d = timesDouble (timesDouble (timesDouble d 60) 60) 1000"
  by (simp_all add: unitProduct_def)

lemma unitProduct_integer:
  assumes u: "u \<in> {''ms'', ''s'', ''m'', ''h''}"
    and b: "real (digitsVal ip) * unitFactor u < 2 ^ 53"
  shows "doubleValue (unitProduct u (magnitudeDouble ip [])) =
           Some (real (digitsVal ip) * unitFactor u)"
proof -
  let ?N = "digitsVal ip"
  have lt: "\<And>F. unitFactor u = real F \<Longrightarrow> ?N * F < 2 ^ 53"
  proof -
    fix F assume "unitFactor u = real F"
    then have "real (?N * F) < real (2 ^ 53)" using b by simp
    then show "?N * F < 2 ^ 53" by (simp only: of_nat_less_iff)
  qed
  have le: "\<And>F G. ?N * (F * G) < 2 ^ 53 \<Longrightarrow> 0 < G \<Longrightarrow> ?N * F < 2 ^ 53"
  proof -
    fix F G :: nat assume a: "?N * (F * G) < 2 ^ 53" "0 < G"
    have "?N * F * 1 \<le> ?N * F * G" using a(2) by (intro mult_le_mono2) simp
    then have "?N * F \<le> ?N * (F * G)" by (simp only: mult.assoc mult_1_right)
    then show "?N * F < 2 ^ 53" using a(1) by (rule le_less_trans)
  qed
  from u consider "u = ''ms''" | "u = ''s''" | "u = ''m''" | "u = ''h''" by auto
  then show ?thesis
  proof cases
    case 1
    have n: "?N < 2 ^ 53" using lt [of 1] by (simp add: 1 unitFactor_def)
    from roundRatio_multiple [OF n, of 1] obtain k where
      "roundRatio (?N * 1) 1 = Dbl (?N * 2 ^ k) (- int k)" by auto
    then have r: "magnitudeDouble ip [] = Dbl (?N * 2 ^ k) (- int k)"
      by (simp only: magnitudeDouble_integer)
    have "unitProduct u (magnitudeDouble ip []) = Dbl (?N * 2 ^ k) (- int k)"
      by (simp only: 1 unitProduct_eval r)
    then show ?thesis
      by (simp only: exact_doubleValue) (simp add: 1 unitFactor_def)
  next
    case 2
    have f: "?N * 1000 < 2 ^ 53" using lt [of 1000] by (simp add: 2 unitFactor_def)
    have n: "?N < 2 ^ 53" using le [of 1 1000] f by simp
    from roundRatio_multiple [OF n, of 1] obtain k where
      "roundRatio (?N * 1) 1 = Dbl (?N * 2 ^ k) (- int k)" by auto
    then have r: "magnitudeDouble ip [] = Dbl (?N * 2 ^ k) (- int k)"
      by (simp only: magnitudeDouble_integer)
    from timesDouble_exact [OF refl f] obtain k1 where
      t: "timesDouble (Dbl (?N * 2 ^ k) (- int k)) 1000 = Dbl (?N * 1000 * 2 ^ k1) (- int k1)"
      by blast
    have "unitProduct u (magnitudeDouble ip []) = Dbl (?N * 1000 * 2 ^ k1) (- int k1)"
      by (simp only: 2 unitProduct_eval r t)
    then show ?thesis
      by (simp only: exact_doubleValue) (simp add: 2 unitFactor_def)
  next
    case 3
    have f: "?N * 60 * 1000 < 2 ^ 53" using lt [of 60000] by (simp add: 3 unitFactor_def)
    have f1: "?N * 60 < 2 ^ 53" using le [of 60 1000] f by (simp add: mult.assoc)
    have n: "?N < 2 ^ 53" using le [of 1 60] f1 by simp
    from roundRatio_multiple [OF n, of 1] obtain k where
      "roundRatio (?N * 1) 1 = Dbl (?N * 2 ^ k) (- int k)" by auto
    then have r: "magnitudeDouble ip [] = Dbl (?N * 2 ^ k) (- int k)"
      by (simp only: magnitudeDouble_integer)
    from timesDouble_exact [OF refl f1] obtain k1 where
      t1: "timesDouble (Dbl (?N * 2 ^ k) (- int k)) 60 = Dbl (?N * 60 * 2 ^ k1) (- int k1)"
      by blast
    from timesDouble_exact [OF refl f] obtain k2 where
      t2: "timesDouble (Dbl (?N * 60 * 2 ^ k1) (- int k1)) 1000 =
             Dbl (?N * 60 * 1000 * 2 ^ k2) (- int k2)"
      by blast
    have "unitProduct u (magnitudeDouble ip []) = Dbl (?N * 60 * 1000 * 2 ^ k2) (- int k2)"
      by (simp only: 3 unitProduct_eval r t1 t2)
    then show ?thesis
      by (simp only: exact_doubleValue) (simp add: 3 unitFactor_def)
  next
    case 4
    have f: "?N * 60 * 60 * 1000 < 2 ^ 53" using lt [of 3600000] by (simp add: 4 unitFactor_def)
    have f2: "?N * 60 * 60 < 2 ^ 53" using le [of 3600 1000] f by (simp add: mult.assoc)
    have f1: "?N * 60 < 2 ^ 53" using le [of 60 60] f2 by (simp add: mult.assoc)
    have n: "?N < 2 ^ 53" using le [of 1 60] f1 by simp
    from roundRatio_multiple [OF n, of 1] obtain k where
      "roundRatio (?N * 1) 1 = Dbl (?N * 2 ^ k) (- int k)" by auto
    then have r: "magnitudeDouble ip [] = Dbl (?N * 2 ^ k) (- int k)"
      by (simp only: magnitudeDouble_integer)
    from timesDouble_exact [OF refl f1] obtain k1 where
      t1: "timesDouble (Dbl (?N * 2 ^ k) (- int k)) 60 = Dbl (?N * 60 * 2 ^ k1) (- int k1)"
      by blast
    from timesDouble_exact [OF refl f2] obtain k2 where
      t2: "timesDouble (Dbl (?N * 60 * 2 ^ k1) (- int k1)) 60 =
             Dbl (?N * 60 * 60 * 2 ^ k2) (- int k2)"
      by blast
    from timesDouble_exact [OF refl f] obtain k3 where
      t3: "timesDouble (Dbl (?N * 60 * 60 * 2 ^ k2) (- int k2)) 1000 =
             Dbl (?N * 60 * 60 * 1000 * 2 ^ k3) (- int k3)"
      by blast
    have "unitProduct u (magnitudeDouble ip []) =
            Dbl (?N * 60 * 60 * 1000 * 2 ^ k3) (- int k3)"
      by (simp only: 4 unitProduct_eval r t1 t2 t3)
    then show ?thesis
      by (simp only: exact_doubleValue) (simp add: 4 unitFactor_def)
  qed
qed

lemma unitProduct_overflow:
  assumes "2 ^ 1024 \<le> digitsVal ip"
  shows "unitProduct u (magnitudeDouble ip []) = Infinity"
  using roundRatio_overflow [OF assms]
  by (simp add: magnitudeDouble_integer unitProduct_def timesDouble_def)

lemma floorlog2_numeral:
  "floorlog 2 (numeral n) = floorlog 2 (numeral n div 2) + 1"
  by (subst compute_floorlog) simp

lemmas double_eval = roundRatio_def log2Floor_def makeDouble_def roundHalfEven_def
  timesDouble_def floorlog2_numeral Let_def

lemmas duration_eval = durationMatch_def magnitudeGroup_def unitGroup_def rmatch.simps(6)
  isDigit_def digitsVal_def digitVal_def

lemma format_both: "(\<exists>d. durationFormatIEEE s d) \<longleftrightarrow> (\<exists>v. durationFormat s v)"
proof
  assume "\<exists>d. durationFormatIEEE s d"
  then obtain d where "durationFormatIEEE s d" ..
  then show "\<exists>v. durationFormat s v"
  proof cases
    case (integer_double ip u)
    from durationFormat.integer_magnitude [OF integer_double(3,4)] integer_double(1)
    show ?thesis by blast
  next
    case (decimal_double ip fp u)
    from durationFormat.decimal_magnitude [OF decimal_double(3,4,5)] decimal_double(1)
    show ?thesis by blast
  qed
next
  assume "\<exists>v. durationFormat s v"
  then obtain v where "durationFormat s v" ..
  then show "\<exists>d. durationFormatIEEE s d"
  proof cases
    case (integer_magnitude ip u)
    from durationFormatIEEE.integer_double [OF integer_magnitude(3,4)] integer_magnitude(1)
    show ?thesis by blast
  next
    case (decimal_magnitude ip fp u)
    from durationFormatIEEE.decimal_double [OF decimal_magnitude(3,4,5)] decimal_magnitude(1)
    show ?thesis by blast
  qed
qed

lemma parseDuration_same_errors: "parseDurationIEEE s = Inl e \<longleftrightarrow> parseDuration s = Inl e"
proof (cases "\<exists>d. durationFormatIEEE s d")
  case True
  then obtain d where "parseDurationIEEE s = Inr d"
    using parseDurationIEEE_format by blast
  moreover obtain v where "parseDuration s = Inr v"
    using True format_both [of s] parseDuration_exact_format [of s] by blast
  ultimately show ?thesis by simp
next
  case False
  then have "\<forall>x. parseDurationIEEE s \<noteq> Inr x"
    using parseDurationIEEE_format by blast
  then have a: "parseDurationIEEE s = Inl (Invalid_duration s)"
    by (rule parseDurationIEEE_error)
  have "\<forall>x. parseDuration s \<noteq> Inr x"
    using False format_both [of s] parseDuration_exact_format [of s] by blast
  then have "parseDuration s = Inl (Invalid_duration s)"
    using parseDuration_exact_format [of s] by blast
  then show ?thesis using a by simp
qed

lemma digitsVal_snoc: "digitsVal (ds @ [c]) = 10 * digitsVal ds + digitVal c"
  by (simp add: digitsVal_def)

lemma digitsVal_ones: "10 ^ n \<le> digitsVal (replicate (Suc n) (CHR ''1''))"
proof (induction n)
  case 0
  show ?case by (simp add: digitsVal_def digitVal_def)
next
  case (Suc n)
  have "replicate (Suc (Suc n)) (CHR ''1'') = replicate (Suc n) (CHR ''1'') @ [CHR ''1'']"
    by (simp only: replicate_append_same) simp
  then show ?case using Suc.IH by (simp only: digitsVal_snoc) simp
qed

subsection \<open>How far rounding moves the result\<close>

lemma roundHalfEven_real:
  assumes "0 < r"
  shows "\<bar>real (roundHalfEven p r) - real p / real r\<bar> \<le> 1 / 2"
proof -
  define f where "f = p div r"
  define m where "m = p mod r"
  have p: "real p = real f * real r + real m"
    unfolding f_def m_def by (metis div_mult_mod_eq of_nat_add of_nat_mult)
  have mr: "m < r" unfolding m_def using assms by simp
  have r: "0 < real r" using assms by simp
  have q: "real p / real r = real f + real m / real r"
    using r by (simp add: p field_simps)
  consider "2 * m < r" | "r < 2 * m" | "2 * m = r" by linarith
  then show ?thesis
  proof cases
    case 1
    then have "roundHalfEven p r = f" by (simp add: roundHalfEven_def f_def m_def Let_def)
    moreover have "real m / real r \<le> 1 / 2"
      using 1 r by (simp add: field_simps)
    moreover have "0 \<le> real m / real r" by simp
    ultimately show ?thesis by (simp add: q)
  next
    case 2
    then have "roundHalfEven p r = f + 1" by (simp add: roundHalfEven_def f_def m_def Let_def)
    moreover have "1 / 2 \<le> real m / real r"
      using 2 r by (simp add: field_simps)
    moreover have "real m / real r \<le> 1"
      using mr r by (simp add: field_simps)
    ultimately show ?thesis by (simp add: q)
  next
    case 3
    then have c: "roundHalfEven p r = f \<or> roundHalfEven p r = f + 1"
      by (simp add: roundHalfEven_def f_def m_def Let_def)
    have "real r = 2 * real m" using 3 by (metis of_nat_mult of_nat_numeral)
    then have h: "real m / real r = 1 / 2" using r by simp
    from c show ?thesis
    proof
      assume "roundHalfEven p r = f"
      then show ?thesis by (simp only: q h; simp)
    next
      assume "roundHalfEven p r = f + 1"
      then show ?thesis by (simp only: q h; simp)
    qed
  qed
qed

lemma pow2_int:
  "2 powr real_of_int d = (if 0 \<le> d then 2 ^ nat d else 1 / 2 ^ nat (- d))"
proof (cases "0 \<le> d")
  case True
  have "2 powr real (nat d) = (2::real) ^ nat d" by (rule powr_realpow) simp
  then show ?thesis using True by simp
next
  case False
  have "2 powr real (nat (- d)) = (2::real) ^ nat (- d)" by (rule powr_realpow) simp
  moreover have "real (nat (- d)) = - real_of_int d" using False by simp
  ultimately have e: "2 powr (- real_of_int d) = (2::real) ^ nat (- d)" by simp
  have "2 powr real_of_int d = 1 / 2 powr (- real_of_int d)"
    using powr_minus_divide [of 2 "- real_of_int d"] by simp
  then show ?thesis using False by (simp only: e if_False)
qed

lemma pow2_add: "2 powr real_of_int (x + y) = 2 powr real_of_int x * 2 powr real_of_int y"
  by (simp add: powr_add)

lemma floorlog2_real:
  assumes "0 < a"
  shows "\<exists>p. floorlog 2 a = Suc p \<and> 2 powr real p \<le> real a \<and> real a < 2 powr (real p + 1)"
proof -
  have "floorlog 2 a \<noteq> 0" using assms floorlog_eq_zero_iff [of 2 a] by simp
  then obtain p where p: "floorlog 2 a = Suc p" by (cases "floorlog 2 a") simp_all
  have b: "2 ^ p \<le> a" "a < 2 ^ Suc p"
    using floorlog_bounds [of a 2] assms by (simp_all add: p)
  have "real (2 ^ p) \<le> real a" using b(1) by (simp only: of_nat_le_iff)
  then have l: "2 powr real p \<le> real a" by (simp add: powr_realpow)
  have "2 powr real (Suc p) = (2::real) ^ Suc p" by (rule powr_realpow) simp
  moreover have "real (Suc p) = real p + 1" by simp
  ultimately have e: "2 powr (real p + 1) = (2::real) ^ Suc p" by (simp only:)
  have "real a < real (2 ^ Suc p)" using b(2) by (simp only: of_nat_less_iff)
  then have u: "real a < 2 powr (real p + 1)" by (simp only: e) simp
  show ?thesis using p l u by blast
qed

lemma log2Floor_bounds:
  assumes "0 < a" "0 < b"
  shows "2 powr real_of_int (log2Floor a b) \<le> real a / real b"
    and "real a / real b < 2 powr real_of_int (log2Floor a b + 1)"
proof -
  from floorlog2_real [OF assms(1)] obtain pa where
    pa: "floorlog 2 a = Suc pa" "2 powr real pa \<le> real a" "real a < 2 powr (real pa + 1)"
    by blast
  from floorlog2_real [OF assms(2)] obtain pb where
    pb: "floorlog 2 b = Suc pb" "2 powr real pb \<le> real b" "real b < 2 powr (real pb + 1)"
    by blast
  define d where "d = int pa - int pb"
  have di: "int (floorlog 2 a) - int (floorlog 2 b) = d" by (simp add: pa(1) pb(1) d_def)
  have rb: "0 < real b" using assms(2) by simp
  have ra: "0 < real a" using assms(1) by simp
  have test: "(if 0 \<le> d then b * 2 ^ nat d \<le> a else b \<le> a * 2 ^ nat (- d)) =
       (real b * 2 powr real_of_int d \<le> real a)"
  proof (cases "0 \<le> d")
    case True
    have "(b * 2 ^ nat d \<le> a) = (real (b * 2 ^ nat d) \<le> real a)"
      by (simp only: of_nat_le_iff)
    then show ?thesis using True by (simp add: pow2_int)
  next
    case False
    have "(b \<le> a * 2 ^ nat (- d)) = (real b \<le> real (a * 2 ^ nat (- d)))"
      by (simp only: of_nat_le_iff)
    then show ?thesis using False by (simp add: pow2_int field_simps)
  qed
  have up: "real a / real b < 2 powr real_of_int (d + 1)"
  proof -
    have "real a < 2 powr (real pa + 1)" by (fact pa(3))
    also have "\<dots> = 2 powr real_of_int (d + 1) * 2 powr real pb"
      by (simp add: d_def flip: powr_add)
    also have "\<dots> \<le> 2 powr real_of_int (d + 1) * real b"
      using pb(2) by (intro mult_left_mono) simp_all
    finally show ?thesis using rb by (simp add: field_simps)
  qed
  have lo: "2 powr real_of_int (d - 1) \<le> real a / real b"
  proof -
    have "2 powr real_of_int (d - 1) * real b \<le> 2 powr real_of_int (d - 1) * 2 powr (real pb + 1)"
      using pb(3) by (intro mult_left_mono) simp_all
    also have "\<dots> = 2 powr real pa"
      by (simp add: d_def flip: powr_add)
    also have "\<dots> \<le> real a" by (fact pa(2))
    finally show ?thesis using rb by (simp add: field_simps)
  qed
  show "2 powr real_of_int (log2Floor a b) \<le> real a / real b"
  proof (cases "real b * 2 powr real_of_int d \<le> real a")
    case True
    then have "log2Floor a b = d" by (simp add: log2Floor_def Let_def di test)
    then show ?thesis using True rb by (simp add: field_simps)
  next
    case False
    then have "log2Floor a b = d - 1" by (simp add: log2Floor_def Let_def di test)
    then show ?thesis using lo by simp
  qed
  show "real a / real b < 2 powr real_of_int (log2Floor a b + 1)"
  proof (cases "real b * 2 powr real_of_int d \<le> real a")
    case True
    then have "log2Floor a b = d" by (simp add: log2Floor_def Let_def di test)
    then show ?thesis using up by simp
  next
    case False
    then have "log2Floor a b = d - 1" by (simp add: log2Floor_def Let_def di test)
    then show ?thesis using False rb by (simp add: field_simps)
  qed
qed

lemma scaled_round:
  assumes "0 < b"
  shows "\<bar>real (if 0 \<le> q then roundHalfEven a (b * 2 ^ nat q)
                  else roundHalfEven (a * 2 ^ nat (- q)) b) -
          real a / real b / 2 powr real_of_int q\<bar> \<le> 1 / 2"
proof (cases "0 \<le> q")
  case True
  have "0 < b * 2 ^ nat q" using assms by simp
  from roundHalfEven_real [OF this, of a] show ?thesis
    using True by (simp add: pow2_int)
next
  case False
  from roundHalfEven_real [OF assms, of "a * 2 ^ nat (- q)"] show ?thesis
    using False by (simp add: pow2_int)
qed

lemma makeDouble_value:
  assumes "makeDouble n q = Dbl m e" "n \<noteq> 0"
  shows "real m * 2 powr real_of_int e = real n * 2 powr real_of_int q"
proof (cases "n = 2 ^ 53")
  case True
  then have "m = 2 ^ 52 \<and> e = q + 1"
    using assms by (simp add: makeDouble_def split: if_splits)
  then show ?thesis by (simp add: True powr_add)
next
  case False
  then have "m = n \<and> e = q"
    using assms by (simp add: makeDouble_def split: if_splits)
  then show ?thesis by simp
qed

lemma roundRatio_normal:
  assumes "0 < a" "0 < b" "2 powr (- 1022) \<le> real a / real b"
  shows "\<exists>n. roundRatio a b = makeDouble n (log2Floor a b - 52) \<and> n \<noteq> 0 \<and>
     2 powr (- 1022) \<le> real n * 2 powr real_of_int (log2Floor a b - 52) \<and>
     \<bar>real n * 2 powr real_of_int (log2Floor a b - 52) - real a / real b\<bar>
        \<le> real a / real b * 2 powr (- 53)"
proof -
  define x where "x = real a / real b"
  define E where "E = log2Floor a b"
  define q where "q = E - 52"
  define n where "n = (if 0 \<le> q then roundHalfEven a (b * 2 ^ nat q)
                       else roundHalfEven (a * 2 ^ nat (- q)) b)"
  define y where "y = x / 2 powr real_of_int q"
  have xb: "2 powr real_of_int E \<le> x" "x < 2 powr real_of_int (E + 1)"
    using log2Floor_bounds [OF assms(1,2)] by (simp_all add: x_def E_def)
  have "2 powr (- 1022) < 2 powr real_of_int (E + 1)"
    by (rule le_less_trans [OF assms(3) [folded x_def] xb(2)])
  then have "- 1022 < real_of_int (E + 1)" by simp
  then have E: "- 1022 \<le> E" by linarith
  then have mx: "max (log2Floor a b - 52) (- 1074) = q" by (simp add: q_def E_def)
  have p: "0 < 2 powr real_of_int q" by simp
  have Eq: "2 powr real_of_int E = 2 ^ 52 * 2 powr real_of_int q"
  proof -
    have "real_of_int E = 52 + real_of_int q" by (simp add: q_def)
    then have "2 powr real_of_int E = 2 powr 52 * 2 powr real_of_int q"
      by (simp only: powr_add)
    moreover have "(2::real) powr 52 = 2 ^ 52" by simp
    ultimately show ?thesis by (simp only:)
  qed
  have Eq1: "2 powr real_of_int (E + 1) = 2 ^ 53 * 2 powr real_of_int q"
  proof -
    have "real_of_int (E + 1) = 53 + real_of_int q" by (simp add: q_def)
    then have "2 powr real_of_int (E + 1) = 2 powr 53 * 2 powr real_of_int q"
      by (simp only: powr_add)
    moreover have "(2::real) powr 53 = 2 ^ 53" by simp
    ultimately show ?thesis by (simp only:)
  qed
  have half: "1 / 2 * 2 powr real_of_int q = 2 powr real_of_int E * 2 powr (- 53)"
  proof -
    have "2 powr real_of_int E * 2 powr (- 53) = 2 ^ 52 * 2 powr (- 53) * 2 powr real_of_int q"
      by (simp only: Eq) simp
    moreover have "2 ^ 52 * 2 powr (- 53) = (1 / 2 :: real)"
      by (simp add: powr_minus_divide)
    ultimately show ?thesis by (simp only:)
  qed
  have yl: "2 ^ 52 \<le> y"
  proof -
    have "2 ^ 52 * 2 powr real_of_int q \<le> x" using xb(1) by (simp only: Eq)
    then show ?thesis using p by (simp add: y_def field_simps)
  qed
  have yu: "y < 2 ^ 53"
  proof -
    have "x < 2 ^ 53 * 2 powr real_of_int q" using xb(2) by (simp only: Eq1)
    then show ?thesis using p by (simp add: y_def field_simps)
  qed
  have ny: "\<bar>real n - y\<bar> \<le> 1 / 2"
    using scaled_round [OF assms(2), of q a] by (simp only: n_def y_def x_def)
  have "y - 1 / 2 \<le> real n" using ny by linarith
  then have "2 ^ 52 - 1 < real n" using yl by linarith
  moreover have "real (2 ^ 52 - 1) = 2 ^ 52 - 1" by simp
  ultimately have "real (2 ^ 52 - 1) < real n" by (simp only:)
  then have "2 ^ 52 - 1 < n" by (simp only: of_nat_less_iff)
  then have nl: "2 ^ 52 \<le> n" by simp
  then have n0: "n \<noteq> 0" by simp
  have rr: "roundRatio a b = makeDouble n q"
    using assms(1) by (simp add: roundRatio_def Let_def mx n_def)
  have "2 powr (- 1022) \<le> 2 powr real_of_int E" using E by simp
  also have "\<dots> = 2 ^ 52 * 2 powr real_of_int q" by (fact Eq)
  also have "\<dots> \<le> real n * 2 powr real_of_int q"
  proof -
    have "real (2 ^ 52) \<le> real n" using nl by (simp only: of_nat_le_iff)
    then show ?thesis by (intro mult_right_mono) simp_all
  qed
  finally have low: "2 powr (- 1022) \<le> real n * 2 powr real_of_int q" .
  have "\<bar>real n * 2 powr real_of_int q - x\<bar> = \<bar>real n - y\<bar> * 2 powr real_of_int q"
  proof -
    have "real n * 2 powr real_of_int q - x = (real n - y) * 2 powr real_of_int q"
      using p by (simp add: y_def field_simps)
    then show ?thesis by (simp add: abs_mult)
  qed
  also have "\<dots> \<le> 1 / 2 * 2 powr real_of_int q"
    using ny by (intro mult_right_mono) simp_all
  also have "\<dots> = 2 powr real_of_int E * 2 powr (- 53)" by (fact half)
  also have "\<dots> \<le> x * 2 powr (- 53)"
    using xb(1) by (intro mult_right_mono) simp_all
  finally have acc: "\<bar>real n * 2 powr real_of_int q - x\<bar> \<le> x * 2 powr (- 53)" .
  show ?thesis
    using rr n0 low acc unfolding q_def E_def x_def by blast
qed

lemma roundRatio_accurate:
  assumes "0 < a" "0 < b" "2 powr (- 1022) \<le> real a / real b" "roundRatio a b = Dbl m e"
  shows "2 powr (- 1022) \<le> real m * 2 powr real_of_int e"
    and "\<bar>real m * 2 powr real_of_int e - real a / real b\<bar> \<le> real a / real b * 2 powr (- 53)"
proof -
  from roundRatio_normal [OF assms(1,2,3)] obtain n where
    n: "roundRatio a b = makeDouble n (log2Floor a b - 52)" "n \<noteq> 0"
       "2 powr (- 1022) \<le> real n * 2 powr real_of_int (log2Floor a b - 52)"
       "\<bar>real n * 2 powr real_of_int (log2Floor a b - 52) - real a / real b\<bar>
          \<le> real a / real b * 2 powr (- 53)"
    by blast
  have V: "real m * 2 powr real_of_int e = real n * 2 powr real_of_int (log2Floor a b - 52)"
    using makeDouble_value [OF _ n(2)] assms(4) n(1) by simp
  show "2 powr (- 1022) \<le> real m * 2 powr real_of_int e" using n(3) by (simp only: V)
  show "\<bar>real m * 2 powr real_of_int e - real a / real b\<bar> \<le> real a / real b * 2 powr (- 53)"
    using n(4) by (simp only: V)
qed

lemma roundRatio_finite:
  assumes "0 < a" "0 < b" "2 powr (- 1022) \<le> real a / real b" "real a / real b < 2 powr 1023"
  shows "\<exists>m e. roundRatio a b = Dbl m e"
proof -
  from roundRatio_normal [OF assms(1,2,3)] obtain n where
    n: "roundRatio a b = makeDouble n (log2Floor a b - 52)" "n \<noteq> 0"
    by blast
  have "2 powr real_of_int (log2Floor a b) < 2 powr 1023"
    by (rule le_less_trans [OF log2Floor_bounds(1) [OF assms(1,2)] assms(4)])
  then have "real_of_int (log2Floor a b) < 1023"
    by (subst (asm) powr_less_cancel_iff) simp_all
  then have "log2Floor a b - 52 \<le> 970" by linarith
  then show ?thesis using n by (simp add: makeDouble_def)
qed

lemma doubleValue_powr: "doubleValue (Dbl m e) = Some (real m * 2 powr real_of_int e)"
  by (simp add: doubleValue_def pow2_int)

lemma ulp53: "2 powr (- 53) = (1 / 2 ^ 53 :: real)"
  by (simp add: powr_minus_divide)

lemma timesDouble_as_ratio:
  "\<exists>a b. timesDouble (Dbl m e) c = roundRatio a b \<and> 0 < b \<and>
     real a / real b = real m * 2 powr real_of_int e * real c"
proof (cases "0 \<le> e")
  case True
  have "timesDouble (Dbl m e) c = roundRatio (m * c * 2 ^ nat e) 1"
    using True by (simp add: timesDouble_def)
  moreover have "real (m * c * 2 ^ nat e) / real 1 = real m * 2 powr real_of_int e * real c"
    using True by (simp add: pow2_int)
  ultimately show ?thesis by (intro exI [of _ "m * c * 2 ^ nat e"] exI [of _ 1]) simp
next
  case False
  have "timesDouble (Dbl m e) c = roundRatio (m * c) (2 ^ nat (- e))"
    using False by (simp add: timesDouble_def)
  moreover have "real (m * c) / real (2 ^ nat (- e)) = real m * 2 powr real_of_int e * real c"
    using False by (simp add: pow2_int)
  ultimately show ?thesis by (intro exI [of _ "m * c"] exI [of _ "2 ^ nat (- e)"]) simp
qed

lemma first_rounding:
  assumes "0 < b" "2 powr (- 1022) \<le> real a / real b" "real a / real b < 2 powr 1023"
  shows "withinRounding 1 (real a / real b) (roundRatio a b)"
proof -
  have "0 < real a / real b" using assms(2) by (rule less_le_trans [rotated]) simp
  then have a: "0 < a" using assms(1) by (simp add: zero_less_divide_iff)
  from roundRatio_finite [OF a assms] obtain m e where d: "roundRatio a b = Dbl m e" by blast
  note acc = roundRatio_accurate [OF a assms(1,2) d]
  let ?x = "real a / real b" and ?V = "real m * 2 powr real_of_int e"
  have "?x - ?x * 2 powr (- 53) \<le> ?V" "?V \<le> ?x + ?x * 2 powr (- 53)"
    using acc(2) by linarith+
  then have "?x * (1 - 2 powr (- 53)) ^ 1 \<le> ?V" "?V \<le> ?x * (1 + 2 powr (- 53)) ^ 1"
    by (simp_all only: power_one_right right_diff_distrib distrib_left mult_1_right)
  then show ?thesis using acc(1) by (simp only: withinRounding_def d Double.case; simp)
qed

lemma next_rounding:
  assumes w: "withinRounding k x d" and c: "1 \<le> c" and k: "k \<le> 3"
    and b: "x * real c * 2 < 2 powr 1023"
  shows "withinRounding (Suc k) (x * real c) (timesDouble d c)"
proof -
  let ?u = "2 powr (- 53) :: real"
  from w obtain m e where d: "d = Dbl m e" by (cases d) (simp_all add: withinRounding_def)
  let ?V = "real m * 2 powr real_of_int e"
  have V: "2 powr (- 1022) \<le> ?V" "x * (1 - ?u) ^ k \<le> ?V" "?V \<le> x * (1 + ?u) ^ k"
    using w by (simp_all add: withinRounding_def d)
  have V0: "0 < ?V" using V(1) by (rule less_le_trans [rotated]) simp
  have rc: "1 \<le> real c" using c by simp
  from timesDouble_as_ratio [of m e c] obtain a' b' where
    t: "timesDouble (Dbl m e) c = roundRatio a' b'" "0 < b'"
       "real a' / real b' = ?V * real c" by blast
  have u01: "0 \<le> ?u" "?u \<le> 1" "0 \<le> 1 - ?u" by (simp_all add: ulp53)
  have "(1 + ?u) ^ k \<le> (1 + ?u) ^ 3" using k u01(1) by (intro power_increasing) simp_all
  also have "\<dots> \<le> 2" by (simp add: ulp53 power3_eq_cube)
  finally have p2: "(1 + ?u) ^ k \<le> 2" .
  have x0: "0 < x"
  proof (rule ccontr)
    assume "\<not> 0 < x"
    then have "x * (1 + ?u) ^ k \<le> 0" by (simp add: mult_le_0_iff)
    then show False using V(3) V0 by linarith
  qed
  have lo: "2 powr (- 1022) \<le> ?V * real c"
  proof -
    have "?V * 1 \<le> ?V * real c" using rc V0 by (intro mult_left_mono) simp_all
    then show ?thesis using V(1) by simp
  qed
  have hi: "?V * real c < 2 powr 1023"
  proof -
    have "?V \<le> x * 2" using V(3) p2 x0
      by (meson less_imp_le mult_left_mono order_trans)
    then have "?V * real c \<le> x * 2 * real c" using rc by (intro mult_right_mono) simp_all
    then show ?thesis using b by (simp add: mult.commute mult.left_commute)
  qed
  have w1: "withinRounding 1 (?V * real c) (roundRatio a' b')"
    using first_rounding [OF t(2), of a', unfolded t(3), OF lo hi] .
  then obtain m' e' where d': "roundRatio a' b' = Dbl m' e'"
    by (cases "roundRatio a' b'") (simp_all add: withinRounding_def)
  let ?W = "real m' * 2 powr real_of_int e'"
  have W: "2 powr (- 1022) \<le> ?W" "?V * real c * (1 - ?u) \<le> ?W" "?W \<le> ?V * real c * (1 + ?u)"
    using w1 by (simp_all add: withinRounding_def d')
  have "x * real c * (1 - ?u) ^ Suc k = x * (1 - ?u) ^ k * (real c * (1 - ?u))" by simp
  also have "\<dots> \<le> ?V * (real c * (1 - ?u))"
    using V(2) u01(3) rc by (intro mult_right_mono) simp_all
  also have "\<dots> \<le> ?W" using W(2) by (simp add: mult.assoc)
  finally have l: "x * real c * (1 - ?u) ^ Suc k \<le> ?W" .
  have "?W \<le> ?V * (real c * (1 + ?u))" using W(3) by (simp add: mult.assoc)
  also have "\<dots> \<le> x * (1 + ?u) ^ k * (real c * (1 + ?u))"
    using V(3) u01(1) rc by (intro mult_right_mono) simp_all
  also have "\<dots> = x * real c * (1 + ?u) ^ Suc k" by simp
  finally have h: "?W \<le> x * real c * (1 + ?u) ^ Suc k" .
  show ?thesis
    using W(1) l h by (simp only: d t(1) d' withinRounding_def Double.case; simp)
qed

lemma within_four:
  assumes w: "withinRounding k x d" and k: "k \<le> 4"
  shows "\<exists>v. doubleValue d = Some v \<and> \<bar>v - x\<bar> \<le> x / 2 ^ 50"
proof -
  let ?u = "2 powr (- 53) :: real"
  from w obtain m e where d: "d = Dbl m e" by (cases d) (simp_all add: withinRounding_def)
  let ?V = "real m * 2 powr real_of_int e"
  have V: "2 powr (- 1022) \<le> ?V" "x * (1 - ?u) ^ k \<le> ?V" "?V \<le> x * (1 + ?u) ^ k"
    using w by (simp_all add: withinRounding_def d)
  have V0: "0 < ?V" using V(1) by (rule less_le_trans [rotated]) simp
  have u01: "0 \<le> ?u" "?u \<le> 1" "0 \<le> 1 - ?u" "1 - ?u \<le> 1" by (simp_all add: ulp53)
  have x0: "0 < x"
  proof (rule ccontr)
    assume "\<not> 0 < x"
    then have "x * (1 + ?u) ^ k \<le> 0" using u01(1) by (simp add: mult_le_0_iff)
    then show False using V(3) V0 by linarith
  qed
  have "(1 + ?u) ^ k \<le> (1 + ?u) ^ 4" using k u01(1) by (intro power_increasing) simp_all
  also have "\<dots> \<le> 1 + 1 / 2 ^ 50" by (simp add: ulp53 power4_eq_xxxx)
  finally have up: "(1 + ?u) ^ k \<le> 1 + 1 / 2 ^ 50" .
  have "1 - 1 / 2 ^ 50 \<le> (1 - ?u) ^ 4" by (simp add: ulp53 power4_eq_xxxx)
  also have "\<dots> \<le> (1 - ?u) ^ k" using k u01(3,4) by (intro power_decreasing) simp_all
  finally have dn: "1 - 1 / 2 ^ 50 \<le> (1 - ?u) ^ k" .
  have "x * (1 - 1 / 2 ^ 50) \<le> x * (1 - ?u) ^ k" using dn x0 by (intro mult_left_mono) simp_all
  then have l: "x - x / 2 ^ 50 \<le> ?V" using V(2) by (simp add: algebra_simps)
  have "x * (1 + ?u) ^ k \<le> x * (1 + 1 / 2 ^ 50)" using up x0 by (intro mult_left_mono) simp_all
  then have h: "?V \<le> x + x / 2 ^ 50" using V(3) by (simp add: algebra_simps)
  have "\<bar>?V - x\<bar> \<le> x / 2 ^ 50" using l h by linarith
  then show ?thesis by (simp only: d doubleValue_powr; blast)
qed

lemma unitProduct_zero: "unitProduct u (roundRatio 0 b) = Dbl 0 0"
  by (simp add: unitProduct_def roundRatio_def timesDouble_def)

lemma magnitude_ratio:
  "real (digitsVal ip * 10 ^ length fp + digitsVal fp) / real (10 ^ length fp :: nat) =
     magnitudeValue ip fp"
  by (simp add: magnitudeValue_def field_simps)

lemma unitProduct_accurate:
  assumes b: "0 < b" and u: "u \<in> {''ms'', ''s'', ''m'', ''h''}"
    and lo: "1 / 2 ^ 1000 \<le> real a / real b * unitFactor u"
    and hi: "real a / real b * unitFactor u \<le> 2 ^ 1000"
  shows "\<exists>w. doubleValue (unitProduct u (roundRatio a b)) = Some w \<and>
           \<bar>w - real a / real b * unitFactor u\<bar> \<le> real a / real b * unitFactor u / 2 ^ 50"
proof -
  define x where "x = real a / real b"
  have F: "1 \<le> unitFactor u" "unitFactor u \<le> 2 ^ 22"
    using u by (auto simp add: unitFactor_def)
  have x0: "0 \<le> x" unfolding x_def by simp
  have "x * unitFactor u \<le> x * 2 ^ 22" using F(2) x0 by (intro mult_left_mono) simp_all
  then have "1 / 2 ^ 1000 \<le> x * 2 ^ 22" using lo unfolding x_def by linarith
  then have "1 / 2 ^ 1022 \<le> x" by simp
  then have xl: "2 powr (- 1022) \<le> x" by (simp add: powr_minus_divide)
  have "x * 1 \<le> x * unitFactor u" using F(1) x0 by (intro mult_left_mono) simp_all
  then have xh: "x \<le> 2 ^ 1000" using hi unfolding x_def by simp
  then have x1: "x < 2 powr 1023" by simp
  note w1 = first_rounding [OF b xl [unfolded x_def] x1 [unfolded x_def], folded x_def]
  from u consider "u = ''ms''" | "u = ''s''" | "u = ''m''" | "u = ''h''" by auto
  then have "\<exists>w. doubleValue (unitProduct u (roundRatio a b)) = Some w \<and>
           \<bar>w - x * unitFactor u\<bar> \<le> x * unitFactor u / 2 ^ 50"
  proof cases
    case 1
    from within_four [OF w1] obtain w where
      w: "doubleValue (roundRatio a b) = Some w" "\<bar>w - x\<bar> \<le> x / 2 ^ 50"
      by auto
    have e: "x * unitFactor u = x" by (simp add: 1 unitFactor_def)
    have p: "unitProduct u (roundRatio a b) = roundRatio a b" by (simp only: 1 unitProduct_eval)
    show ?thesis unfolding e p using w by blast
  next
    case 2
    have h: "x * 1000 \<le> 2 ^ 1000" using hi by (simp add: 2 unitFactor_def x_def)
    have "x * real 1000 * 2 < 2 powr 1023" using h by simp
    from next_rounding [OF w1 _ _ this]
    have w2: "withinRounding (Suc 1) (x * real 1000) (timesDouble (roundRatio a b) 1000)"
      by simp
    from within_four [OF w2] obtain w where
      w: "doubleValue (timesDouble (roundRatio a b) 1000) = Some w"
         "\<bar>w - x * real 1000\<bar> \<le> x * real 1000 / 2 ^ 50"
      by auto
    have e: "x * unitFactor u = x * real 1000" by (simp add: 2 unitFactor_def)
    have p: "unitProduct u (roundRatio a b) = timesDouble (roundRatio a b) 1000"
      by (simp only: 2 unitProduct_eval)
    show ?thesis unfolding e p using w by blast
  next
    case 3
    have h: "x * 60000 \<le> 2 ^ 1000" using hi by (simp add: 3 unitFactor_def x_def)
    have "x * real 60 * 2 < 2 powr 1023" using h x0 by simp
    from next_rounding [OF w1 _ _ this]
    have w2: "withinRounding (Suc 1) (x * real 60) (timesDouble (roundRatio a b) 60)"
      by simp
    have "x * real 60 * real 1000 * 2 < 2 powr 1023" using h by simp
    from next_rounding [OF w2 _ _ this]
    have w3: "withinRounding (Suc (Suc 1)) (x * real 60 * real 1000)
        (timesDouble (timesDouble (roundRatio a b) 60) 1000)"
      by simp
    from within_four [OF w3] obtain w where
      w: "doubleValue (timesDouble (timesDouble (roundRatio a b) 60) 1000) = Some w" "\<bar>w - x * real 60 * real 1000\<bar> \<le> x * real 60 * real 1000 / 2 ^ 50"
      by auto
    have e: "x * unitFactor u = x * real 60 * real 1000" by (simp add: 3 unitFactor_def)
    have p: "unitProduct u (roundRatio a b) = timesDouble (timesDouble (roundRatio a b) 60) 1000" by (simp only: 3 unitProduct_eval)
    show ?thesis unfolding e p using w by blast
  next
    case 4
    have h: "x * 3600000 \<le> 2 ^ 1000" using hi by (simp add: 4 unitFactor_def x_def)
    have "x * real 60 * 2 < 2 powr 1023" using h x0 by simp
    from next_rounding [OF w1 _ _ this]
    have w2: "withinRounding (Suc 1) (x * real 60) (timesDouble (roundRatio a b) 60)"
      by simp
    have "x * real 60 * real 60 * 2 < 2 powr 1023" using h x0 by simp
    from next_rounding [OF w2 _ _ this]
    have w3: "withinRounding (Suc (Suc 1)) (x * real 60 * real 60)
        (timesDouble (timesDouble (roundRatio a b) 60) 60)"
      by simp
    have "x * real 60 * real 60 * real 1000 * 2 < 2 powr 1023" using h by simp
    from next_rounding [OF w3 _ _ this]
    have w4: "withinRounding (Suc (Suc (Suc 1))) (x * real 60 * real 60 * real 1000)
        (timesDouble (timesDouble (timesDouble (roundRatio a b) 60) 60) 1000)"
      by simp
    from within_four [OF w4] obtain w where
      w: "doubleValue (timesDouble (timesDouble (timesDouble (roundRatio a b) 60) 60) 1000) = Some w" "\<bar>w - x * real 60 * real 60 * real 1000\<bar> \<le> x * real 60 * real 60 * real 1000 / 2 ^ 50"
      by auto
    have e: "x * unitFactor u = x * real 60 * real 60 * real 1000" by (simp add: 4 unitFactor_def)
    have p: "unitProduct u (roundRatio a b) = timesDouble (timesDouble (timesDouble (roundRatio a b) 60) 60) 1000" by (simp only: 4 unitProduct_eval)
    show ?thesis unfolding e p using w by blast
  qed
  then show ?thesis by (simp only: x_def)
qed

lemma magnitude_accurate:
  assumes u: "u \<in> {''ms'', ''s'', ''m'', ''h''}"
    and z: "magnitudeValue ip fp * unitFactor u = 0 \<or>
            1 / 2 ^ 1000 \<le> magnitudeValue ip fp * unitFactor u"
    and hi: "magnitudeValue ip fp * unitFactor u \<le> 2 ^ 1000"
  shows "\<exists>w. doubleValue (unitProduct u (magnitudeDouble ip fp)) = Some w \<and>
           \<bar>w - magnitudeValue ip fp * unitFactor u\<bar>
             \<le> magnitudeValue ip fp * unitFactor u / 2 ^ 50"
proof (cases "magnitudeValue ip fp * unitFactor u = 0")
  case True
  have "unitFactor u \<noteq> 0" using u by (auto simp add: unitFactor_def)
  then have "magnitudeValue ip fp = 0" using True by simp
  then have "digitsVal ip * 10 ^ length fp + digitsVal fp = 0"
    by (simp add: magnitudeValue_def add_nonneg_eq_0_iff)
  then have "magnitudeDouble ip fp = roundRatio 0 (10 ^ length fp)"
    by (simp only: magnitudeDouble_def)
  then show ?thesis by (simp add: True unitProduct_zero doubleValue_def)
next
  case False
  then have lo: "1 / 2 ^ 1000 \<le> magnitudeValue ip fp * unitFactor u" using z by simp
  have b: "0 < (10 ^ length fp :: nat)" by simp
  from unitProduct_accurate [OF b u, of "digitsVal ip * 10 ^ length fp + digitsVal fp",
      unfolded magnitude_ratio, OF lo hi]
  show ?thesis by (simp only: magnitudeDouble_def)
qed

lemma format_accurate:
  assumes "durationFormat s v" "v = 0 \<or> 1 / 2 ^ 1000 \<le> v" "v \<le> 2 ^ 1000"
  shows "\<exists>d w. parseDurationIEEE s = Inr d \<and> doubleValue d = Some w \<and> \<bar>w - v\<bar> \<le> v / 2 ^ 50"
  using assms(1)
proof cases
  case (integer_magnitude ip u)
  have p: "parseDurationIEEE s = Inr (unitProduct u (magnitudeDouble ip []))"
    using durationFormatIEEE.integer_double [OF integer_magnitude(3,4)]
    by (simp only: integer_magnitude(1) parseDurationIEEE_format)
  from magnitude_accurate [OF integer_magnitude(4), of ip "[]"] assms(2,3)
  show ?thesis by (simp only: integer_magnitude(2) p) blast
next
  case (decimal_magnitude ip fp u)
  have p: "parseDurationIEEE s = Inr (unitProduct u (magnitudeDouble ip fp))"
    using durationFormatIEEE.decimal_double [OF decimal_magnitude(3,4,5)]
    by (simp only: decimal_magnitude(1) parseDurationIEEE_format)
  from magnitude_accurate [OF decimal_magnitude(5), of ip fp] assms(2,3)
  show ?thesis by (simp only: decimal_magnitude(2) p) blast
qed

text \<open>
  Claim C8 as stated does not hold of the number returned. \<open>1.005s\<close> has the format, with
  magnitude times 1000 equal to 1005, itself a double; the function returns the double
  \<open>1005 - 2 ^ - 43\<close> (printed 1004.9999999999999), the rounded product of 1000 and the
  double nearest 1.005. Nor is the result the magnitude's double times 60000 in double
  arithmetic: for \<open>4.35m\<close> the code's two products \<open>value * 60 * 1000\<close> give 261000, one
  product by 60000 gives the double below it.
\<close>

theorem parseDuration_rounding_counterexample:
  "durationFormat ''1.005s'' 1005 \<and>
   parseDurationIEEE ''1.005s'' = Inr (Dbl 8840073487319039 (- 43)) \<and>
   doubleValue (Dbl 8840073487319039 (- 43)) = Some (1005 - 1 / 2 ^ 43) \<and>
   1005 - 1 / 2 ^ 43 \<noteq> (1005 :: real) \<and>
   doubleValue (roundRatio 1005 1) = Some 1005 \<and>
   parseDurationIEEE ''4.35m'' = Inr (Dbl 8967891714048000 (- 35)) \<and>
   timesDouble (magnitudeDouble ''4'' ''35'') 60000 = Dbl 8967891714047999 (- 35)"
proof -
  have d: "allDigits ''1''" "allDigits ''005''" "''s'' \<in> {''ms'', ''s'', ''m'', ''h''}"
    by (simp_all add: allDigits_def isDigit_def)
  have "magnitudeValue ''1'' ''005'' * unitFactor ''s'' = 1005"
    by (simp add: magnitudeValue_def unitFactor_def digitsVal_def digitVal_def)
  then have f: "durationFormat ''1.005s'' 1005"
    using durationFormat.decimal_magnitude [OF d] by simp
  have e: "parseDurationIEEE ''1.005s'' = Inr (Dbl 8840073487319039 (- 43))"
    "parseDurationIEEE ''4.35m'' = Inr (Dbl 8967891714048000 (- 35))"
    by (simp_all add: parseDurationIEEE_def parseFloatIEEE_def duration_eval double_eval)
  have v: "doubleValue (Dbl 8840073487319039 (- 43)) = Some (1005 - 1 / 2 ^ 43)"
    "doubleValue (roundRatio 1005 1) = Some 1005"
    by (simp_all add: doubleValue_def double_eval)
  have t: "timesDouble (magnitudeDouble ''4'' ''35'') 60000 = Dbl 8967891714047999 (- 35)"
    by (simp add: magnitudeDouble_def digitsVal_def digitVal_def double_eval)
  have n: "1005 - 1 / 2 ^ 43 \<noteq> (1005 :: real)" by simp
  show ?thesis using f e v t n by (simp only: simp_thms)
qed

text \<open>
  Claim C8, amended. \<open>parseDuration\<close> returns a number exactly on the strings made of an
  integer or decimal magnitude immediately followed by one of the suffixes ms, s, m, h.
  The number is the double nearest to the magnitude, multiplied in double arithmetic,
  each product rounded, by 1000 (s), by 60 and then 1000 (m), or by 60, 60 and then
  1000 (h). For an integer magnitude whose product with 1, 1000, 60000 or 3600000 is
  below \<open>2 ^ 53\<close> this is exactly that product; for an integer magnitude of \<open>2 ^ 1024\<close> or
  more it is \<open>Infinity\<close>. Whenever the magnitude times 1, 1000, 60000 or 3600000 is zero
  or lies between \<open>2 ^ - 1000\<close> and \<open>2 ^ 1000\<close>, the number returned is finite and differs
  from that product by at most the product divided by \<open>2 ^ 50\<close>. On every other string
  the function raises the invalid-duration error, the same error on the same strings as
  over exact reals.
\<close>

theorem parseDuration_ieee_format:
  "(parseDurationIEEE s = Inr d \<longleftrightarrow> durationFormatIEEE s d) \<and>
   ((\<forall>x. parseDurationIEEE s \<noteq> Inr x) \<longrightarrow> parseDurationIEEE s = Inl (Invalid_duration s)) \<and>
   (parseDurationIEEE s = Inl e \<longleftrightarrow> parseDuration s = Inl e) \<and>
   (allDigits ip \<and> u \<in> {''ms'', ''s'', ''m'', ''h''} \<and>
    real (digitsVal ip) * unitFactor u < 2 ^ 53 \<longrightarrow>
      parseDurationIEEE (ip @ u) = Inr (unitProduct u (magnitudeDouble ip [])) \<and>
      doubleValue (unitProduct u (magnitudeDouble ip [])) =
        Some (real (digitsVal ip) * unitFactor u)) \<and>
   (allDigits ip \<and> u \<in> {''ms'', ''s'', ''m'', ''h''} \<and> 2 ^ 1024 \<le> digitsVal ip \<longrightarrow>
      parseDurationIEEE (ip @ u) = Inr Infinity) \<and>
   (durationFormat s v \<and> (v = 0 \<or> 1 / 2 ^ 1000 \<le> v) \<and> v \<le> 2 ^ 1000 \<longrightarrow>
      (\<exists>x w. parseDurationIEEE s = Inr x \<and> doubleValue x = Some w \<and>
         \<bar>w - v\<bar> \<le> v / 2 ^ 50))"
proof -
  have r: "allDigits ip \<and> u \<in> {''ms'', ''s'', ''m'', ''h''} \<longrightarrow>
      parseDurationIEEE (ip @ u) = Inr (unitProduct u (magnitudeDouble ip []))"
    using durationFormatIEEE.integer_double [of ip u] parseDurationIEEE_format by blast
  have i: "allDigits ip \<and> u \<in> {''ms'', ''s'', ''m'', ''h''} \<and>
    real (digitsVal ip) * unitFactor u < 2 ^ 53 \<longrightarrow>
      parseDurationIEEE (ip @ u) = Inr (unitProduct u (magnitudeDouble ip [])) \<and>
      doubleValue (unitProduct u (magnitudeDouble ip [])) =
        Some (real (digitsVal ip) * unitFactor u)"
    using r unitProduct_integer [of u ip] by blast
  have o: "allDigits ip \<and> u \<in> {''ms'', ''s'', ''m'', ''h''} \<and> 2 ^ 1024 \<le> digitsVal ip \<longrightarrow>
      parseDurationIEEE (ip @ u) = Inr Infinity"
    using r unitProduct_overflow [of ip u] by auto
  have x: "(\<forall>x. parseDurationIEEE s \<noteq> Inr x) \<longrightarrow>
      parseDurationIEEE s = Inl (Invalid_duration s)"
    using parseDurationIEEE_error by blast
  have acc: "durationFormat s v \<and> (v = 0 \<or> 1 / 2 ^ 1000 \<le> v) \<and> v \<le> 2 ^ 1000 \<longrightarrow>
      (\<exists>x w. parseDurationIEEE s = Inr x \<and> doubleValue x = Some w \<and>
         \<bar>w - v\<bar> \<le> v / 2 ^ 50)"
    using format_accurate [of s v] by blast
  show ?thesis
    using parseDurationIEEE_format [of s d] x parseDuration_same_errors [of s e] i o acc
    by (simp only: simp_thms)
qed

theorem parseDuration_ieee_format_witness:
  "parseDurationIEEE ''1.5h'' = Inr (Dbl 5798205849600000 (- 30)) \<and>
   durationFormatIEEE ''1.5h'' (Dbl 5798205849600000 (- 30)) \<and>
   doubleValue (Dbl 5798205849600000 (- 30)) = Some 5400000 \<and>
   parseDurationIEEE ''5 m'' = Inl (Invalid_duration ''5 m'') \<and>
   parseDuration ''5 m'' = Inl (Invalid_duration ''5 m'') \<and>
   parseDurationIEEE ''.5s'' = Inl (Invalid_duration ''.5s'') \<and>
   allDigits ''5'' \<and> real (digitsVal ''5'') * unitFactor ''m'' < 2 ^ 53 \<and>
   parseDurationIEEE ''5m'' = Inr (Dbl 5153960755200000 (- 34)) \<and>
   doubleValue (Dbl 5153960755200000 (- 34)) = Some 300000 \<and>
   doubleValue (unitProduct ''m'' (magnitudeDouble ''5'' [])) = Some 300000 \<and>
   allDigits (replicate 310 (CHR ''1'')) \<and>
   2 ^ 1024 \<le> digitsVal (replicate 310 (CHR ''1'')) \<and>
   parseDurationIEEE (replicate 310 (CHR ''1'') @ ''ms'') = Inr Infinity \<and>
   durationFormat ''16.1s'' 16100 \<and> 1 / 2 ^ 1000 \<le> (16100 :: real) \<and>
   (16100 :: real) \<le> 2 ^ 1000 \<and>
   parseDurationIEEE ''16.1s'' = Inr (Dbl 8851068603596801 (- 39)) \<and>
   doubleValue (Dbl 8851068603596801 (- 39)) = Some (16100 + 1 / 2 ^ 39) \<and>
   \<bar>16100 + 1 / 2 ^ 39 - 16100\<bar> \<le> (16100 / 2 ^ 50 :: real)"
proof -
  have e: "parseDurationIEEE ''1.5h'' = Inr (Dbl 5798205849600000 (- 30))"
    "parseDurationIEEE ''5 m'' = Inl (Invalid_duration ''5 m'')"
    "parseDurationIEEE ''.5s'' = Inl (Invalid_duration ''.5s'')"
    "parseDurationIEEE ''5m'' = Inr (Dbl 5153960755200000 (- 34))"
    by (simp_all add: parseDurationIEEE_def parseFloatIEEE_def duration_eval double_eval)
  have v: "doubleValue (Dbl 5798205849600000 (- 30)) = Some 5400000"
    "doubleValue (Dbl 5153960755200000 (- 34)) = Some 300000"
    by (simp_all add: doubleValue_def)
  have h: "allDigits ''5''" "''m'' \<in> {''ms'', ''s'', ''m'', ''h''}"
    "real (digitsVal ''5'') * unitFactor ''m'' < 2 ^ 53"
    by (simp_all add: allDigits_def isDigit_def digitsVal_def digitVal_def unitFactor_def)
  have "(2::nat) ^ 1024 \<le> 10 ^ 309" by simp
  also have "\<dots> \<le> digitsVal (replicate (Suc 309) (CHR ''1''))" by (rule digitsVal_ones)
  finally have big: "2 ^ 1024 \<le> digitsVal (replicate 310 (CHR ''1''))" by simp
  have ones: "allDigits (replicate 310 (CHR ''1''))"
    by (simp add: allDigits_def isDigit_def list_all_iff)
  note T = parseDuration_ieee_format
  from T [of "''1.5h''" "Dbl 5798205849600000 (- 30)"] e(1)
  have f1: "durationFormatIEEE ''1.5h'' (Dbl 5798205849600000 (- 30))" by simp
  from T [of "''5 m''" _ "Invalid_duration ''5 m''"] e(2)
  have f2: "parseDuration ''5 m'' = Inl (Invalid_duration ''5 m'')" by simp
  from T [of _ _ _ "replicate 310 (CHR ''1'')" "''ms''"] ones big
  have f3: "parseDurationIEEE (replicate 310 (CHR ''1'') @ ''ms'') = Inr Infinity" by simp
  from T [of _ _ _ "''5''" "''m''"] h
  have f4: "doubleValue (unitProduct ''m'' (magnitudeDouble ''5'' [])) = Some 300000"
    by (simp add: digitsVal_def digitVal_def unitFactor_def)
  have g: "allDigits ''16''" "allDigits ''1''" "''s'' \<in> {''ms'', ''s'', ''m'', ''h''}"
    by (simp_all add: allDigits_def isDigit_def)
  have "magnitudeValue ''16'' ''1'' * unitFactor ''s'' = 16100"
    by (simp add: magnitudeValue_def unitFactor_def digitsVal_def digitVal_def)
  then have f5: "durationFormat ''16.1s'' 16100"
    using durationFormat.decimal_magnitude [OF g] by simp
  have r: "1 / 2 ^ 1000 \<le> (16100 :: real)" "(16100 :: real) \<le> 2 ^ 1000" by simp_all
  have e5: "parseDurationIEEE ''16.1s'' = Inr (Dbl 8851068603596801 (- 39))"
    by (simp add: parseDurationIEEE_def parseFloatIEEE_def duration_eval double_eval)
  have v5: "doubleValue (Dbl 8851068603596801 (- 39)) = Some (16100 + 1 / 2 ^ 39)"
    by (simp add: doubleValue_def)
  have "\<exists>x w. parseDurationIEEE ''16.1s'' = Inr x \<and> doubleValue x = Some w \<and>
      \<bar>w - 16100\<bar> \<le> 16100 / 2 ^ 50"
    by (rule T [of "''16.1s''" _ _ _ _ 16100, THEN conjunct2, THEN conjunct2, THEN conjunct2,
          THEN conjunct2, THEN conjunct2, THEN mp])
       (use f5 r in \<open>simp only: simp_thms\<close>)
  then obtain x w where
    xw: "parseDurationIEEE ''16.1s'' = Inr x" "doubleValue x = Some w"
      "\<bar>w - 16100\<bar> \<le> 16100 / 2 ^ 50"
    by blast
  have "w = 16100 + 1 / 2 ^ 39" using xw(1,2) e5 v5 by simp
  then have f6: "\<bar>16100 + 1 / 2 ^ 39 - 16100\<bar> \<le> (16100 / 2 ^ 50 :: real)"
    using xw(3) by (simp only:)
  show ?thesis using e v h(1,3) big ones f1 f2 f3 f4 f5 r e5 v5 f6 by (simp only: simp_thms)
qed

section \<open>Cooldown store: lookup, lazy deletion, overwrite\<close>

lemma parseDuration_nonneg: "parseDuration d = Inr ms \<Longrightarrow> 0 \<le> ms"
  by (auto simp add: parseDuration_def parseFloat_def Let_def
      split: option.splits prod.splits if_splits)

lemma parseDuration_nonempty: "parseDuration d = Inr ms \<Longrightarrow> d \<noteq> []"
  by (auto simp add: parseDuration_def durationMatch_def magnitudeGroup_def
      rmatch_Plus_Digit_Nil split: option.splits)

lemma positiveExpiries_create: "positiveExpiries createRouterState"
  by (simp add: positiveExpiries_def createRouterState_def)

lemma positiveExpiries_setCooldown:
  "positiveExpiries st \<Longrightarrow> 0 < now \<Longrightarrow> setCooldown now k d st = Inr st' \<Longrightarrow>
   positiveExpiries st'"
  by (auto simp add: positiveExpiries_def setCooldown_def
      split: option.splits if_splits sum.splits dest!: parseDuration_nonneg)

lemma positiveExpiries_isInCooldown:
  "positiveExpiries st \<Longrightarrow> positiveExpiries (snd (isInCooldown now k st))"
  by (auto simp add: positiveExpiries_def isInCooldown_def split: option.splits if_splits)

text \<open>
  Claim C5. In a state whose expiry instants are positive (every state the store reaches
  from the empty one at positive clock readings), \<open>isInCooldown\<close> returns true exactly when
  the key has an entry whose expiry is strictly later than now, and its only effect is to
  delete the key's entry when that expiry has passed. \<open>setCooldown\<close> without a duration
  returns the state as it is; with a duration that parses it stores now + duration under
  the key, whatever an earlier call stored there, and touches no other key.
\<close>

theorem cooldown_store:
  assumes "positiveExpiries st"
  shows
   "(fst (isInCooldown now key st) \<longleftrightarrow> (\<exists>e. cooldowns st key = Some e \<and> now < e)) \<and>
    cooldowns (snd (isInCooldown now key st)) =
      (if \<exists>e. cooldowns st key = Some e \<and> e \<le> now
       then (cooldowns st)(key := None) else cooldowns st) \<and>
    roundRobinIndex (snd (isInCooldown now key st)) = roundRobinIndex st \<and>
    metrics (snd (isInCooldown now key st)) = metrics st \<and>
    setCooldown now key None st = Inr st \<and>
    (parseDuration d = Inr ms \<longrightarrow>
       setCooldown now key (Some d) st =
         Inr (st\<lparr> cooldowns := (cooldowns st)(key \<mapsto> now + ms) \<rparr>)) \<and>
    (parseDuration d = Inr ms \<and> setCooldown now' key (Some d') st = Inr st' \<longrightarrow>
       (\<exists>st''. setCooldown now key (Some d) st' = Inr st'' \<and>
              cooldowns st'' key = Some (now + ms) \<and>
              (\<forall>k. k \<noteq> key \<longrightarrow> cooldowns st'' k = cooldowns st' k))) \<and>
    (0 < now \<and> setCooldown now key dur st = Inr st' \<longrightarrow> positiveExpiries st') \<and>
    positiveExpiries (snd (isInCooldown now key st))"
proof -
  have pos: "\<And>e. cooldowns st key = Some e \<Longrightarrow> e \<noteq> 0"
    using assms by (auto simp add: positiveExpiries_def)
  have a: "fst (isInCooldown now key st) \<longleftrightarrow> (\<exists>e. cooldowns st key = Some e \<and> now < e)"
    using pos by (auto simp add: isInCooldown_def split: option.splits)
  have b: "cooldowns (snd (isInCooldown now key st)) =
      (if \<exists>e. cooldowns st key = Some e \<and> e \<le> now
       then (cooldowns st)(key := None) else cooldowns st)"
    using pos by (auto simp add: isInCooldown_def split: option.splits)
  have c: "roundRobinIndex (snd (isInCooldown now key st)) = roundRobinIndex st"
    "metrics (snd (isInCooldown now key st)) = metrics st"
    by (simp_all add: isInCooldown_def split: option.splits)
  have d: "setCooldown now key None st = Inr st"
    by (simp add: setCooldown_def)
  have e: "\<And>s. parseDuration d = Inr ms \<Longrightarrow>
       setCooldown now key (Some d) s =
         Inr (s\<lparr> cooldowns := (cooldowns s)(key \<mapsto> now + ms) \<rparr>)"
    by (frule parseDuration_nonempty) (simp add: setCooldown_def)
  have f: "parseDuration d = Inr ms \<and> setCooldown now' key (Some d') st = Inr st' \<longrightarrow>
       (\<exists>st''. setCooldown now key (Some d) st' = Inr st'' \<and>
              cooldowns st'' key = Some (now + ms) \<and>
              (\<forall>k. k \<noteq> key \<longrightarrow> cooldowns st'' k = cooldowns st' k))"
    using e [of st'] by simp
  show ?thesis
    using a b c d e [of st] f positiveExpiries_setCooldown [OF assms, of now key dur st']
      positiveExpiries_isInCooldown [OF assms, of now key]
    by (simp only: simp_thms) blast
qed

lemma parseDuration_1m: "parseDuration ''1m'' = Inr 60000"
  by (simp add: parseDuration_def durationMatch_def magnitudeGroup_def unitGroup_def
      rmatch.simps(6) isDigit_def parseFloat_def digitsVal_def digitVal_def)

theorem cooldown_store_witness:
  "positiveExpiries coolState \<and>
   fst (isInCooldown 2000 ''a/b'' coolState) \<and>
   \<not> fst (isInCooldown 301000 ''a/b'' coolState) \<and>
   cooldowns (snd (isInCooldown 301000 ''a/b'' coolState)) ''a/b'' = None \<and>
   setCooldown 2000 ''a/b'' None coolState = Inr coolState \<and>
   setCooldown 2000 ''a/b'' (Some ''1m'') coolState =
     Inr (coolState\<lparr> cooldowns := (cooldowns coolState)(''a/b'' \<mapsto> 62000) \<rparr>)"
proof -
  have p: "positiveExpiries coolState"
    by (simp add: positiveExpiries_def coolState_def createRouterState_def)
  have c: "cooldowns coolState ''a/b'' = Some 301000"
    by (simp add: coolState_def createRouterState_def)
  from p c parseDuration_1m
    cooldown_store [OF p, of 2000 "''a/b''" "''1m''" 60000 1000 "''5m''" coolState None]
    cooldown_store [OF p, of 301000 "''a/b''" "''1m''" 60000 1000 "''5m''" coolState None]
  show ?thesis by simp
qed

section \<open>Target selector: round-robin rotation\<close>

lemma rotate_as_slices: "i < length xs \<Longrightarrow> drop i xs @ take i xs = rotate i xs"
  by (simp add: rotate_drop_take)

lemma cursorInRange_cases:
  assumes "cursorInRange st vmid n"
  shows "nullish (roundRobinIndex st vmid) (Index 0) = Index (cursorValue st vmid)"
    and "0 < n \<Longrightarrow> cursorValue st vmid < n"
  using assms
  by (auto simp add: cursorInRange_def cursorValue_def nullish_def
      split: option.splits JsIndex.splits)

lemma selectTargets_round_robin:
  assumes "strategy c = round_robin" "targets c \<noteq> []"
    "cursorInRange st vmid (length (targets c))"
  shows "selectTargets vmid c st rs =
     (rotate (cursorValue st vmid) (targets c),
      st\<lparr> roundRobinIndex := (roundRobinIndex st)
            (vmid \<mapsto> Index ((cursorValue st vmid + 1) mod length (targets c))) \<rparr>,
      rs)"
proof -
  have n: "0 < length (targets c)" using assms(2) by simp
  note cv = cursorInRange_cases [OF assms(3)]
  show ?thesis
    using cv(2) [OF n] n
    by (simp add: selectTargets_def assms(1) cv(1) Let_def sliceFrom_def sliceTo_def
        incrMod_def rotate_as_slices)
qed

lemma cursor_after_round_robin:
  assumes "0 < n"
  shows "cursorInRange (st\<lparr> roundRobinIndex := (roundRobinIndex st)
            (vmid \<mapsto> Index ((i + 1) mod n)) \<rparr>) vmid n"
    and "cursorValue (st\<lparr> roundRobinIndex := (roundRobinIndex st)
            (vmid \<mapsto> Index ((i + 1) mod n)) \<rparr>) vmid = (i + 1) mod n"
  using assms by (simp_all add: cursorInRange_def cursorValue_def)

lemma selectRepeatedly_round_robin:
  assumes "strategy c = round_robin" "targets c \<noteq> []"
  shows "cursorInRange st vmid (length (targets c)) \<Longrightarrow>
     fst (selectRepeatedly k vmid c st rs) =
       map (\<lambda>j. rotate ((cursorValue st vmid + j) mod length (targets c)) (targets c)) [0..<k]"
proof (induction k arbitrary: st)
  case 0
  show ?case by simp
next
  case (Suc k)
  let ?n = "length (targets c)"
  let ?i = "cursorValue st vmid"
  let ?st1 = "st\<lparr> roundRobinIndex := (roundRobinIndex st)(vmid \<mapsto> Index ((?i + 1) mod ?n)) \<rparr>"
  have n: "0 < ?n" using assms(2) by simp
  have i: "?i < ?n" using cursorInRange_cases(2) [OF Suc.prems n] .
  have step: "selectTargets vmid c st rs = (rotate ?i (targets c), ?st1, rs)"
    using selectTargets_round_robin [OF assms Suc.prems] .
  have rest: "fst (selectRepeatedly k vmid c ?st1 rs) =
       map (\<lambda>j. rotate (((?i + 1) mod ?n + j) mod ?n) (targets c)) [0..<k]"
    using Suc.IH [OF cursor_after_round_robin(1) [OF n]]
    by (simp only: cursor_after_round_robin(2) [OF n])
  have idx: "\<And>j. ((?i + 1) mod ?n + j) mod ?n = (?i + Suc j) mod ?n"
    by (simp add: mod_add_left_eq)
  have "fst (selectRepeatedly (Suc k) vmid c st rs) =
        rotate ?i (targets c) # fst (selectRepeatedly k vmid c ?st1 rs)"
    by (simp add: step split: prod.splits)
  also have "\<dots> = rotate ((?i + 0) mod ?n) (targets c) #
        map (\<lambda>j. rotate ((?i + Suc j) mod ?n) (targets c)) [0..<k]"
    using i by (simp only: rest idx) simp
  also have "\<dots> = map (\<lambda>j. rotate ((?i + j) mod ?n) (targets c)) (0 # map Suc [0..<k])"
    by (simp add: comp_def)
  also have "0 # map Suc [0..<k] = [0..<Suc k]"
    by (simp add: upt_conv_Cons map_Suc_upt del: upt_Suc)
  finally show ?case .
qed

lemma starts_cover:
  assumes "0 < (n::nat)"
  shows "distinct (map (\<lambda>j. (i + j) mod n) [0..<n])"
    and "set (map (\<lambda>j. (i + j) mod n) [0..<n]) = {0..<n}"
proof -
  have inj: "inj_on (\<lambda>j. (i + j) mod n) {0..<n}"
  proof (rule inj_onI)
    fix x y assume x: "x \<in> {0..<n}" and y: "y \<in> {0..<n}"
      and e: "(i + x) mod n = (i + y) mod n"
    have le: "\<And>a b. a \<le> b \<Longrightarrow> b < n \<Longrightarrow> (i + a) mod n = (i + b) mod n \<Longrightarrow> a = b"
    proof -
      fix a b :: nat assume ab: "a \<le> b" "b < n" "(i + a) mod n = (i + b) mod n"
      have "n dvd (i + b) - (i + a)"
        using ab(1,3) mod_eq_dvd_iff_nat [of "i + a" "i + b" n] by simp
      then have "n dvd b - a" by simp
      moreover have "b - a < n" using ab(2) by simp
      ultimately have "b - a = 0" by (meson dvd_imp_le not_less zero_less_iff_neq_zero)
      then show "a = b" using ab(1) by simp
    qed
    show "x = y"
    proof (cases "x \<le> y")
      case True
      then show ?thesis using le [of x y] y e by simp
    next
      case False
      then show ?thesis using le [of y x] x e by simp
    qed
  qed
  then show d: "distinct (map (\<lambda>j. (i + j) mod n) [0..<n])"
    by (simp add: distinct_map)
  have "set (map (\<lambda>j. (i + j) mod n) [0..<n]) \<subseteq> {0..<n}"
    using assms by auto
  moreover have "card (set (map (\<lambda>j. (i + j) mod n) [0..<n])) = n"
    using distinct_card [OF d] by simp
  ultimately show "set (map (\<lambda>j. (i + j) mod n) [0..<n]) = {0..<n}"
    by (simp add: card_subset_eq)
qed

lemma selectTargets_round_robin_stored:
  assumes "strategy c = round_robin" "targets c \<noteq> []"
    "nullish (roundRobinIndex st vmid) (Index 0) = Index i" "length (targets c) = n"
  shows "selectTargets vmid c st rs =
     (drop i (targets c) @ take i (targets c),
      st\<lparr> roundRobinIndex := (roundRobinIndex st)(vmid \<mapsto> Index ((i + 1) mod n)) \<rparr>,
      rs)"
proof -
  have "n \<noteq> 0" using assms(2,4) by auto
  then show ?thesis
    using assms(4)
    by (simp add: selectTargets_def assms(1,3) Let_def sliceFrom_def sliceTo_def incrMod_def)
qed

lemma selectRepeatedly_step:
  "selectTargets vmid c st rs = (r, st1, rs1) \<Longrightarrow>
   selectRepeatedly k vmid c st1 rs1 = (rest, st2, rs2) \<Longrightarrow>
   selectRepeatedly (Suc k) vmid c st rs = (r # rest, st2, rs2)"
  by simp

lemma cursor_update_twice:
  "st\<lparr> roundRobinIndex := (roundRobinIndex st)(vmid \<mapsto> a) \<rparr>
     \<lparr> roundRobinIndex := (roundRobinIndex (st\<lparr> roundRobinIndex :=
           (roundRobinIndex st)(vmid \<mapsto> a) \<rparr>))(vmid \<mapsto> b) \<rparr> =
   st\<lparr> roundRobinIndex := (roundRobinIndex st)(vmid \<mapsto> b) \<rparr>"
  by simp

lemma selectRepeatedly_stored:
  assumes "strategy c = round_robin" "targets c \<noteq> []"
  shows "nullish (roundRobinIndex st vmid) (Index 0) = Index i \<Longrightarrow>
     selectRepeatedly (Suc k) vmid c st rs =
       (map (\<lambda>j. drop (if j = 0 then i else (i + j) mod length (targets c)) (targets c) @
                  take (if j = 0 then i else (i + j) mod length (targets c)) (targets c))
          [0..<Suc k],
        st\<lparr> roundRobinIndex := (roundRobinIndex st)
              (vmid \<mapsto> Index ((i + Suc k) mod length (targets c))) \<rparr>,
        rs)"
proof (induction k arbitrary: st i)
  case 0
  show ?case
    by (simp add: selectTargets_round_robin_stored [OF assms 0 refl]) (simp add: fun_upd_def)
next
  case (Suc k)
  let ?n = "length (targets c)"
  let ?st1 = "st\<lparr> roundRobinIndex := (roundRobinIndex st)(vmid \<mapsto> Index ((i + 1) mod ?n)) \<rparr>"
  have n: "0 < ?n" using assms(2) by simp
  note one = selectTargets_round_robin_stored [OF assms Suc.prems refl, of rs]
  have nx: "nullish (roundRobinIndex ?st1 vmid) (Index 0) = Index ((i + 1) mod ?n)"
    by (simp add: nullish_def)
  note rest = Suc.IH [OF nx]
  have idx: "\<And>j. ((i + 1) mod ?n + j) mod ?n = (i + Suc j) mod ?n"
    by (simp add: mod_add_left_eq)
  have m0: "(i + 1) mod ?n = (i + Suc 0) mod ?n" by simp
  have shift: "map (\<lambda>j. drop (if j = 0 then (i + 1) mod ?n else ((i + 1) mod ?n + j) mod ?n)
                            (targets c) @
                  take (if j = 0 then (i + 1) mod ?n else ((i + 1) mod ?n + j) mod ?n)
                            (targets c)) [0..<Suc k] =
        map (\<lambda>j. drop ((i + Suc j) mod ?n) (targets c) @ take ((i + Suc j) mod ?n) (targets c))
          [0..<Suc k]"
    by (rule map_cong) (simp_all add: mod_add_left_eq)
  have l: "[0..<Suc (Suc k)] = 0 # map Suc [0..<Suc k]"
    by (simp add: upt_conv_Cons map_Suc_upt del: upt_Suc)
  have main: "selectRepeatedly (Suc (Suc k)) vmid c st rs =
      ((drop i (targets c) @ take i (targets c)) #
        map (\<lambda>j. drop ((i + Suc j) mod ?n) (targets c) @ take ((i + Suc j) mod ?n) (targets c))
          [0..<Suc k],
       st\<lparr> roundRobinIndex := (roundRobinIndex st)
              (vmid \<mapsto> Index ((i + Suc (Suc k)) mod ?n)) \<rparr>, rs)"
    using selectRepeatedly_step [OF one rest [unfolded shift]]
    by (simp only: cursor_update_twice idx)
  have gl: "map (\<lambda>j. drop (if j = 0 then i else (i + j) mod ?n) (targets c) @
                  take (if j = 0 then i else (i + j) mod ?n) (targets c)) [0..<Suc (Suc k)] =
      (drop i (targets c) @ take i (targets c)) #
        map (\<lambda>j. drop ((i + Suc j) mod ?n) (targets c) @ take ((i + Suc j) mod ?n) (targets c))
          [0..<Suc k]"
    unfolding l by (simp add: comp_def del: upt_Suc)
  show ?case unfolding gl by (fact main)
qed

lemma afterLongerList_cursor:
  "afterLongerList =
     createRouterState\<lparr> roundRobinIndex := (roundRobinIndex createRouterState)
        (''virtual/model-a'' \<mapsto> Index 3) \<rparr>"
proof -
  let ?c = "makeConfig round_robin [targetA, targetB, targetC, targetD]"
  have c: "strategy ?c = round_robin" "targets ?c \<noteq> []"
    by (simp_all add: makeConfig_def)
  have n: "nullish (roundRobinIndex createRouterState ''virtual/model-a'') (Index 0) = Index 0"
    by (simp add: createRouterState_def nullish_def)
  have l: "length (targets ?c) = 4" by (simp add: makeConfig_def)
  have "fst (snd (selectRepeatedly (Suc 2) ''virtual/model-a'' ?c createRouterState
                 (constantSource 0))) =
     createRouterState\<lparr> roundRobinIndex := (roundRobinIndex createRouterState)
        (''virtual/model-a'' \<mapsto> Index 3) \<rparr>"
    by (simp only: selectRepeatedly_stored [OF c n] l fst_conv snd_conv) simp
  then show ?thesis by (simp add: afterLongerList_def eval_nat_numeral)
qed

lemma stale_cursor_unrotated:
  assumes "strategy c = round_robin" "targets c \<noteq> []"
    "nullish (roundRobinIndex st vmid) (Index 0) = Index i" "length (targets c) \<le> i"
  shows "selectTargets vmid c st rs =
     (targets c,
      st\<lparr> roundRobinIndex := (roundRobinIndex st)
            (vmid \<mapsto> Index ((i + 1) mod length (targets c))) \<rparr>,
      rs)"
  using assms(4) by (simp add: selectTargets_round_robin_stored [OF assms(1,2,3) refl])

text \<open>
  Claim C2 as stated, for every non-empty target list whatever cursor is stored, does not
  hold. The cursor of \<open>virtual/model-a\<close> is 3 after three calls with four targets. With
  two targets the next two calls both return the list as configured, beginning at
  \<open>targetA\<close>: \<open>slice(3)\<close> of a two-element array is empty and \<open>slice(0, 3)\<close> is the
  whole array, so the result is neither the rotation beginning at the cursor (position
  3 mod 2 = 1, \<open>targetB\<close> first) nor do the two calls begin at different positions.
\<close>

theorem round_robin_stale_cursor_counterexample:
  "strategy (makeConfig round_robin [targetA, targetB]) = round_robin \<and>
   targets (makeConfig round_robin [targetA, targetB]) = [targetA, targetB] \<and>
   afterLongerList =
     fst (snd (selectRepeatedly 3 ''virtual/model-a''
                 (makeConfig round_robin [targetA, targetB, targetC, targetD])
                 createRouterState (constantSource 0))) \<and>
   roundRobinIndex afterLongerList ''virtual/model-a'' = Some (Index 3) \<and>
   fst (selectRepeatedly 2 ''virtual/model-a'' (makeConfig round_robin [targetA, targetB])
          afterLongerList (constantSource 0)) =
     [[targetA, targetB], [targetA, targetB]] \<and>
   rotate 3 [targetA, targetB] = [targetB, targetA] \<and>
   targetA \<noteq> targetB"
proof -
  let ?c = "makeConfig round_robin [targetA, targetB]"
  have c: "strategy ?c = round_robin" "targets ?c \<noteq> []"
    and t: "targets ?c = [targetA, targetB]"
    by (simp_all add: makeConfig_def)
  have s: "roundRobinIndex afterLongerList ''virtual/model-a'' = Some (Index 3)"
    by (simp add: afterLongerList_cursor)
  then have n: "nullish (roundRobinIndex afterLongerList ''virtual/model-a'') (Index 0) = Index 3"
    by (simp add: nullish_def)
  have u: "[0..<Suc (Suc 0)] = [0, Suc 0]" by (simp add: upt_conv_Cons)
  have "fst (selectRepeatedly (Suc (Suc 0)) ''virtual/model-a'' ?c afterLongerList
          (constantSource 0)) = [[targetA, targetB], [targetA, targetB]]"
    by (simp only: selectRepeatedly_stored [OF c n] fst_conv u t)
      (simp add: numeral_2_eq_2 [symmetric])
  then have r: "fst (selectRepeatedly 2 ''virtual/model-a'' ?c afterLongerList
          (constantSource 0)) = [[targetA, targetB], [targetA, targetB]]"
    by (simp only: numeral_2_eq_2)
  have ro: "rotate 3 [targetA, targetB] = [targetB, targetA]"
    by (simp add: eval_nat_numeral rotate_def)
  have ne: "targetA \<noteq> targetB" by (simp add: targetA_def targetB_def)
  show ?thesis using c(1) t s r ro ne by (simp only: afterLongerList_def [symmetric] simp_thms)
qed

text \<open>
  Claim C2, amended. Under the round_robin strategy, for a non-empty target list and a
  stored cursor below the length of the list (or none stored yet, which reads as 0),
  \<open>selectTargets\<close> returns the cyclic rotation of \<open>config.targets\<close> beginning at the
  stored cursor and stores (old cursor + 1) mod length, which is below the length again.
  The call changes the cursor of no other model id and its result depends on no other
  id's cursor. Of \<open>k\<close> successive calls the \<open>j\<close>-th begins at position
  (cursor + j) mod length, so that length-many successive calls begin at each position
  exactly once. For a stored cursor at or above the length the call returns the list
  unrotated and stores (old cursor + 1) mod length, so that the cursor is below the
  length from the next call on.
\<close>

theorem round_robin_rotation:
  assumes "strategy c = round_robin" "targets c \<noteq> []"
    "cursorInRange st vmid (length (targets c))"
  shows
   "selectTargets vmid c st rs =
      (rotate (cursorValue st vmid) (targets c),
       st\<lparr> roundRobinIndex := (roundRobinIndex st)
             (vmid \<mapsto> Index ((cursorValue st vmid + 1) mod length (targets c))) \<rparr>,
       rs) \<and>
    cursorInRange (fst (snd (selectTargets vmid c st rs))) vmid (length (targets c)) \<and>
    (\<forall>other. other \<noteq> vmid \<longrightarrow>
       roundRobinIndex (fst (snd (selectTargets vmid c st rs))) other =
         roundRobinIndex st other) \<and>
    (roundRobinIndex st2 vmid = roundRobinIndex st vmid \<longrightarrow>
       fst (selectTargets vmid c st2 rs2) = fst (selectTargets vmid c st rs)) \<and>
    fst (selectRepeatedly k vmid c st rs) =
      map (\<lambda>j. rotate ((cursorValue st vmid + j) mod length (targets c)) (targets c)) [0..<k] \<and>
    distinct (map (\<lambda>j. (cursorValue st vmid + j) mod length (targets c))
                [0..<length (targets c)]) \<and>
    set (map (\<lambda>j. (cursorValue st vmid + j) mod length (targets c))
                [0..<length (targets c)]) = {0..<length (targets c)} \<and>
    (roundRobinIndex st3 vmid = Some (Index i) \<and> length (targets c) \<le> i \<longrightarrow>
       selectTargets vmid c st3 rs =
         (targets c,
          st3\<lparr> roundRobinIndex := (roundRobinIndex st3)
                (vmid \<mapsto> Index ((i + 1) mod length (targets c))) \<rparr>,
          rs) \<and>
       cursorInRange (fst (snd (selectTargets vmid c st3 rs))) vmid (length (targets c)))"
proof -
  have n: "0 < length (targets c)" using assms(2) by simp
  note one = selectTargets_round_robin [OF assms, of rs]
  have inr: "cursorInRange (fst (snd (selectTargets vmid c st rs))) vmid (length (targets c))"
    using cursor_after_round_robin(1) [OF n] by (simp add: one)
  have others: "\<forall>other. other \<noteq> vmid \<longrightarrow>
       roundRobinIndex (fst (snd (selectTargets vmid c st rs))) other =
         roundRobinIndex st other"
    by (simp add: one)
  have indep: "roundRobinIndex st2 vmid = roundRobinIndex st vmid \<longrightarrow>
       fst (selectTargets vmid c st2 rs2) = fst (selectTargets vmid c st rs)"
    by (simp add: selectTargets_def assms(1) Let_def)
  have stale: "roundRobinIndex st3 vmid = Some (Index i) \<and> length (targets c) \<le> i \<longrightarrow>
       selectTargets vmid c st3 rs =
         (targets c,
          st3\<lparr> roundRobinIndex := (roundRobinIndex st3)
                (vmid \<mapsto> Index ((i + 1) mod length (targets c))) \<rparr>,
          rs) \<and>
       cursorInRange (fst (snd (selectTargets vmid c st3 rs))) vmid (length (targets c))"
  proof (intro impI, elim conjE)
    assume s: "roundRobinIndex st3 vmid = Some (Index i)" and g: "length (targets c) \<le> i"
    have nl: "nullish (roundRobinIndex st3 vmid) (Index 0) = Index i"
      by (simp add: s nullish_def)
    note u = stale_cursor_unrotated [OF assms(1,2) nl g, of rs]
    show "selectTargets vmid c st3 rs =
         (targets c,
          st3\<lparr> roundRobinIndex := (roundRobinIndex st3)
                (vmid \<mapsto> Index ((i + 1) mod length (targets c))) \<rparr>,
          rs) \<and>
       cursorInRange (fst (snd (selectTargets vmid c st3 rs))) vmid (length (targets c))"
      using cursor_after_round_robin(1) [OF n, of st3 vmid i] by (simp add: u)
  qed
  show ?thesis
    using one inr others indep selectRepeatedly_round_robin [OF assms(1,2,3), of k rs]
      starts_cover [OF n, of "cursorValue st vmid"] stale
    by (simp only: simp_thms)
qed

theorem round_robin_rotation_witness:
  "strategy (makeConfig round_robin [targetA, targetB, targetC]) = round_robin \<and>
   targets (makeConfig round_robin [targetA, targetB, targetC]) \<noteq> [] \<and>
   cursorInRange createRouterState ''virtual/model-a'' 3 \<and>
   fst (selectRepeatedly 4 ''virtual/model-a'' (makeConfig round_robin [targetA, targetB, targetC])
          createRouterState (constantSource 0)) =
     [[targetA, targetB, targetC], [targetB, targetC, targetA], [targetC, targetA, targetB],
      [targetA, targetB, targetC]] \<and>
   roundRobinIndex (fst (snd (selectTargets ''virtual/model-a''
        (makeConfig round_robin [targetA, targetB, targetC]) createRouterState (constantSource 0))))
      ''virtual/model-a'' = Some (Index 1) \<and>
   roundRobinIndex (fst (snd (selectTargets ''virtual/model-a''
        (makeConfig round_robin [targetA, targetB, targetC]) createRouterState (constantSource 0))))
      ''virtual/model-b'' = None \<and>
   roundRobinIndex afterLongerList ''virtual/model-a'' = Some (Index 3) \<and>
   length (targets (makeConfig round_robin [targetA, targetB, targetC])) \<le> 3 \<and>
   fst (selectTargets ''virtual/model-a'' (makeConfig round_robin [targetA, targetB, targetC])
          afterLongerList (constantSource 0)) = [targetA, targetB, targetC] \<and>
   roundRobinIndex (fst (snd (selectTargets ''virtual/model-a''
        (makeConfig round_robin [targetA, targetB, targetC]) afterLongerList (constantSource 0))))
      ''virtual/model-a'' = Some (Index 1)"
proof -
  let ?c = "makeConfig round_robin [targetA, targetB, targetC]"
  have h: "strategy ?c = round_robin" "targets ?c \<noteq> []"
    "cursorInRange createRouterState ''virtual/model-a'' (length (targets ?c))"
    by (simp_all add: makeConfig_def cursorInRange_def createRouterState_def)
  have l: "[0..<4] = [0, 1, 2, 3]" "length (targets ?c) = 3" "targets ?c = [targetA, targetB, targetC]"
    by (simp_all add: makeConfig_def upt_conv_Cons)
  have r: "rotate (Suc 0) [targetA, targetB, targetC] = [targetB, targetC, targetA]"
    "rotate 2 [targetA, targetB, targetC] = [targetC, targetA, targetB]"
    by (simp_all add: rotate_def eval_nat_numeral)
  have s: "roundRobinIndex afterLongerList ''virtual/model-a'' = Some (Index 3)"
    by (simp add: afterLongerList_cursor)
  from round_robin_rotation [OF h, of "constantSource 0" createRouterState
      "constantSource 0" 4 afterLongerList 3] h s
  show ?thesis
    by (simp add: l r createRouterState_def cursorValue_def cursorInRange_def)
qed

section \<open>Target selector: every strategy permutes a fresh copy\<close>

lemma mset_insertSorted_eq:
  "insertSorted compare x ys rs = (zs, rs') \<Longrightarrow> mset zs = add_mset x (mset ys)"
  by (induction ys arbitrary: rs zs rs') (auto split: prod.splits if_splits)

lemma mset_sortInto_eq:
  "sortInto compare acc xs rs = (zs, rs') \<Longrightarrow> mset zs = mset acc + mset xs"
proof (induction xs arbitrary: acc rs)
  case Nil
  then show ?case by simp
next
  case (Cons x xs)
  obtain acc1 rs1 where i: "insertSorted compare x acc rs = (acc1, rs1)"
    by (cases "insertSorted compare x acc rs")
  have "mset acc1 = add_mset x (mset acc)"
    using mset_insertSorted_eq [OF i] .
  moreover have "sortInto compare acc1 xs rs1 = (zs, rs')"
    using Cons.prems by (simp add: i)
  ultimately show ?case using Cons.IH [of acc1 rs1] by simp
qed

lemma mset_sortInto:
  "mset (fst (sortInto compare acc xs rs)) = mset acc + mset xs"
  using mset_sortInto_eq [of compare acc xs rs] by (cases "sortInto compare acc xs rs") simp

lemma mset_arraySort: "mset (fst (arraySort compare xs rs)) = mset xs"
  by (simp add: arraySort_def mset_sortInto)

lemma map_fst_scoreAll_eq: "scoreAll tw ts rs = (xs, rs') \<Longrightarrow> map fst xs = ts"
  by (induction ts arbitrary: rs xs rs') (auto split: prod.splits)

lemma map_fst_scoreAll: "map fst (fst (scoreAll tw ts rs)) = ts"
  using map_fst_scoreAll_eq [of tw ts rs] by (cases "scoreAll tw ts rs") simp

lemma mset_weightedSort: "mset (fst (weightedSort ts rs)) = mset ts"
proof -
  define tw where "tw = foldl (\<lambda>sum t. sum + weightOf t) 0 ts"
  obtain scored rs1 where s: "scoreAll tw ts rs = (scored, rs1)"
    by (cases "scoreAll tw ts rs")
  obtain ordered rs2 where a: "arraySort byScoreDescending scored rs1 = (ordered, rs2)"
    by (cases "arraySort byScoreDescending scored rs1")
  have "mset ordered = mset scored"
    using mset_arraySort [of byScoreDescending scored rs1] by (simp add: a)
  then have "mset (map fst ordered) = mset (map fst scored)"
    by (metis mset_map)
  also have "map fst scored = ts"
    using map_fst_scoreAll [of tw ts rs] by (simp add: s)
  finally show ?thesis
    by (simp add: weightedSort_def tw_def [symmetric] s a)
qed

lemma mset_slices: "mset (sliceFrom idx ts @ sliceTo idx ts) = mset ts"
proof (cases idx)
  case (Index n)
  have "mset (take n ts @ drop n ts) = mset ts"
    by simp
  then have "mset (drop n ts) + mset (take n ts) = mset ts"
    by (simp only: mset_append add.commute)
  then show ?thesis by (simp add: Index sliceFrom_def sliceTo_def)
next
  case NaNIndex
  then show ?thesis by (simp add: sliceFrom_def sliceTo_def)
qed

lemma mset_selectTargets: "mset (fst (selectTargets vmid c st rs)) = mset (targets c)"
proof (cases "strategy c")
  case random
  obtain ordered rs1 where a: "arraySort coinFlip (targets c) rs = (ordered, rs1)"
    by (cases "arraySort coinFlip (targets c) rs")
  show ?thesis
    using mset_arraySort [of coinFlip "targets c" rs] by (simp add: selectTargets_def random a)
next
  case weighted
  obtain ordered rs1 where a: "weightedSort (targets c) rs = (ordered, rs1)"
    by (cases "weightedSort (targets c) rs")
  show ?thesis
    using mset_weightedSort [of "targets c" rs] by (simp add: selectTargets_def weighted a)
next
  case round_robin
  then show ?thesis
    using mset_slices [of "nullish (roundRobinIndex st vmid) (Index 0)" "targets c"]
    by (simp add: selectTargets_def Let_def)
qed (simp_all add: selectTargets_def)

text \<open>The call on references hands back a new array holding the list of the call on values.\<close>

lemma selectTargetsRef_refines:
  assumes "t < length h"
    and "selectTargetsRef vmid s t h st rs = (a, h', st', rs')"
  shows "length h \<le> a \<and> a < length h' \<and> take (length h) h' = h \<and>
         (h' ! a, st', rs') = selectTargets vmid (makeConfig s (h ! t)) st rs"
proof (cases s)
  case sequential
  then show ?thesis using assms
    by (auto simp add: selectTargetsRef_def selectTargets_def newArray_def makeConfig_def)
next
  case priority
  then show ?thesis using assms
    by (auto simp add: selectTargetsRef_def selectTargets_def newArray_def makeConfig_def)
next
  case round_robin
  then show ?thesis using assms
    by (auto simp add: selectTargetsRef_def selectTargets_def newArray_def makeConfig_def Let_def)
next
  case random
  obtain ordered rs1 where o: "arraySort coinFlip (h ! t) rs = (ordered, rs1)"
    by (cases "arraySort coinFlip (h ! t) rs")
  have r: "(h @ [h ! t]) ! length h = h ! t" by simp
  show ?thesis using assms
    by (auto simp add: selectTargetsRef_def selectTargets_def newArray_def makeConfig_def
        sortInPlace_def random r o nth_append)
next
  case weighted
  obtain ordered rs1 where o: "weightedSort (h ! t) rs = (ordered, rs1)"
    by (cases "weightedSort (h ! t) rs")
  have r: "(h @ [h ! t]) ! length h = h ! t" by simp
  show ?thesis using assms
    by (auto simp add: selectTargetsRef_def selectTargets_def newArray_def makeConfig_def
        weightedSortRef_def weighted r o nth_append)
qed

text \<open>
  Claim C4. For every strategy, \<open>selectTargets\<close> hands back an array that did not exist
  before the call, holding exactly the multiset of \<open>config.targets\<close> (so the same length),
  and every array that existed before the call, \<open>config.targets\<close> among them, holds after
  the call what it held before. The array handed back holds the list that \<open>selectTargets\<close>
  on values returns, which has the multiset and the length of the targets for any config.
\<close>

theorem selectTargets_multiset:
  assumes "t < length h"
    and "selectTargetsRef vmid s t h st rs = (a, h', st', rs')"
  shows
   "length h \<le> a \<and> a < length h' \<and>
    (\<forall>b. b < length h \<longrightarrow> h' ! b = h ! b) \<and>
    h' ! t = h ! t \<and>
    mset (h' ! a) = mset (h ! t) \<and>
    length (h' ! a) = length (h ! t) \<and>
    h' ! a = fst (selectTargets vmid (makeConfig s (h ! t)) st rs) \<and>
    mset (fst (selectTargets vmid c st2 rs2)) = mset (targets c) \<and>
    length (fst (selectTargets vmid c st2 rs2)) = length (targets c)"
proof -
  from selectTargetsRef_refines [OF assms]
  have r: "length h \<le> a" "a < length h'" "take (length h) h' = h"
    "(h' ! a, st', rs') = selectTargets vmid (makeConfig s (h ! t)) st rs"
    by simp_all
  have old: "\<forall>b. b < length h \<longrightarrow> h' ! b = h ! b"
  proof (intro allI impI)
    fix b assume "b < length h"
    then have "take (length h) h' ! b = h' ! b" by simp
    then show "h' ! b = h ! b" by (simp only: r(3))
  qed
  have same: "h' ! t = h ! t" using old assms(1) by blast
  have res: "h' ! a = fst (selectTargets vmid (makeConfig s (h ! t)) st rs)"
    using r(4) [symmetric] by simp
  have m: "mset (h' ! a) = mset (h ! t)"
    using mset_selectTargets [of vmid "makeConfig s (h ! t)" st rs]
    by (simp add: res makeConfig_def)
  have l: "length (h' ! a) = length (h ! t)"
    using m by (rule mset_eq_length)
  have l2: "length (fst (selectTargets vmid c st2 rs2)) = length (targets c)"
    using mset_selectTargets [of vmid c st2 rs2] by (rule mset_eq_length)
  show ?thesis
    using r(1,2) old same m l res mset_selectTargets [of vmid c st2 rs2] l2
    by (simp only: simp_thms)
qed

theorem selectTargets_multiset_witness:
  "(0::nat) < length [[targetA, targetB, targetC]] \<and>
   selectTargetsRef ''virtual/test'' random 0 [[targetA, targetB, targetC]] createRouterState
       alternatingSource =
     (1, [[targetA, targetB, targetC], [targetC, targetA, targetB]], createRouterState,
      alternatingSource\<lparr> used := 2 \<rparr>) \<and>
   [[targetA, targetB, targetC], [targetC, targetA, targetB]] ! 0 = [targetA, targetB, targetC] \<and>
   mset [targetC, targetA, targetB] = mset [targetA, targetB, targetC] \<and>
   fst (selectTargets ''virtual/test'' (makeConfig random [targetA, targetB, targetC])
          createRouterState alternatingSource) = [targetC, targetA, targetB]"
proof -
  have h: "(0::nat) < length [[targetA, targetB, targetC]]" by simp
  have e: "selectTargetsRef ''virtual/test'' random 0 [[targetA, targetB, targetC]]
       createRouterState alternatingSource =
     (1, [[targetA, targetB, targetC], [targetC, targetA, targetB]], createRouterState,
      alternatingSource\<lparr> used := 2 \<rparr>)"
    by (simp add: selectTargetsRef_def newArray_def sortInPlace_def arraySort_def coinFlip_def
        Math_random_def alternatingSource_def)
  from selectTargets_multiset [OF h e, of "makeConfig random [targetA, targetB, targetC]"
      createRouterState alternatingSource] h e
  show ?thesis by (simp add: makeConfig_def)
qed

section \<open>Resolver: the emitted model id\<close>

lemma normalizeModelID_strips:
  "prefix (p @ ''/'') m \<Longrightarrow> (p @ ''/'') @ normalizeModelID p m = m"
  by (auto simp add: normalizeModelID_def Let_def prefix_def)

lemma normalizeModelID_keeps:
  "\<not> prefix (p @ ''/'') m \<Longrightarrow> normalizeModelID p m = m"
  by (simp add: normalizeModelID_def Let_def)

lemma normalizeModelID_still_prefixed:
  "prefix (p @ ''/'') (normalizeModelID p m) \<longleftrightarrow> prefix (p @ ''/'' @ p @ ''/'') m"
proof (cases "prefix (p @ ''/'') m")
  case True
  then obtain r where r: "m = (p @ ''/'') @ r" by (auto simp add: prefix_def)
  have "normalizeModelID p m = r"
    using normalizeModelID_strips [OF True] r by simp
  then show ?thesis using r by simp
next
  case False
  have "\<not> prefix (p @ ''/'' @ p @ ''/'') m"
    using False by (auto simp add: prefix_def)
  then show ?thesis using False by (simp add: normalizeModelID_keeps)
qed

lemma resolveLoop_Some:
  "resolveLoop now ts st = (Some pm, st') \<Longrightarrow>
   \<exists>t \<in> set ts. providerID pm = provider t \<and>
                modelID pm = normalizeModelID (provider t) (model t)"
proof (induction ts arbitrary: st)
  case Nil
  then show ?case by simp
next
  case (Cons t ts)
  obtain b st1 where c:
    "isInCooldown now (provider t @ ''/'' @ normalizeModelID (provider t) (model t)) st = (b, st1)"
    by (cases "isInCooldown now (provider t @ ''/'' @ normalizeModelID (provider t) (model t)) st")
  show ?case
  proof (cases b)
    case True
    then have "resolveLoop now ts st1 = (Some pm, st')"
      using Cons.prems c by (simp add: Let_def)
    from Cons.IH [OF this] show ?thesis by auto
  next
    case False
    then have "pm = \<lparr> providerID = provider t,
                       modelID = normalizeModelID (provider t) (model t) \<rparr>"
      using Cons.prems c by (simp add: Let_def)
    then show ?thesis by simp
  qed
qed

lemma set_selectTargets: "set (fst (selectTargets vmid c st rs)) = set (targets c)"
  using mset_selectTargets [of vmid c st rs] by (rule mset_eq_setD)

text \<open>
  Claim C9, amended. Every target that \<open>resolveModel\<close> emits, the chosen one and each entry
  of \<open>allTargets\<close>, carries the provider of a configured target and that target's model id
  passed through \<open>normalizeModelID\<close>. The function removes one leading \<open>provider/\<close> from a
  model id that begins with it and returns any other id as it is; so the emitted id still
  begins with the prefix exactly when the configured id began with the prefix twice.
\<close>

theorem resolved_model_id_normalized:
  assumes "resolveModel now vmid vms profiles st rs = (Some r, st', rs')"
    and "vms vmid = Some c"
  shows
   "(\<exists>t \<in> set (targets c).
       providerID r = provider t \<and> modelID r = normalizeModelID (provider t) (model t)) \<and>
    (\<forall>e \<in> set (allTargets r). \<exists>t \<in> set (targets c).
       providerID e = provider t \<and> modelID e = normalizeModelID (provider t) (model t)) \<and>
    (prefix (p @ ''/'') m \<longrightarrow> (p @ ''/'') @ normalizeModelID p m = m) \<and>
    (\<not> prefix (p @ ''/'') m \<longrightarrow> normalizeModelID p m = m) \<and>
    (prefix (p @ ''/'') (normalizeModelID p m) \<longleftrightarrow> prefix (p @ ''/'' @ p @ ''/'') m)"
proof -
  obtain ts st1 rs1 where sel: "selectTargets vmid c st rs = (ts, st1, rs1)"
    by (cases "selectTargets vmid c st rs")
  have ts: "set ts = set (targets c)"
    using set_selectTargets [of vmid c st rs] by (simp add: sel)
  obtain o_pm st2 where loop: "resolveLoop now ts st1 = (o_pm, st2)"
    by (cases "resolveLoop now ts st1")
  from assms(1) obtain pm where pm: "o_pm = Some pm"
    and r: "r = \<lparr> providerID = providerID pm, modelID = modelID pm,
        allTargets = map (\<lambda>t. \<lparr> providerID = provider t,
                          modelID = normalizeModelID (provider t) (model t) \<rparr>) ts \<rparr>"
    by (cases o_pm) (auto simp add: resolveModel_def assms(2) sel loop Let_def)
  have a: "\<exists>t \<in> set (targets c).
       providerID r = provider t \<and> modelID r = normalizeModelID (provider t) (model t)"
    using resolveLoop_Some [OF loop [unfolded pm]] ts r by simp
  have b: "\<forall>e \<in> set (allTargets r). \<exists>t \<in> set (targets c).
       providerID e = provider t \<and> modelID e = normalizeModelID (provider t) (model t)"
    using ts r by auto
  show ?thesis
    using a b normalizeModelID_strips [of p m] normalizeModelID_keeps [of p m]
      normalizeModelID_still_prefixed [of p m]
    by (simp only: simp_thms) blast
qed

text \<open>
  Claim C9 as stated fails: for the provider \<open>openrouter\<close> and the configured id
  \<open>openrouter/openrouter/gpt-4o\<close> the resolver emits \<open>openrouter/gpt-4o\<close>, which begins
  with the provider's prefix.
\<close>

theorem repeated_prefix_counterexample:
  "map_option modelID (fst (resolveModel 1000 ''virtual/test'' repeatedPrefixModels Map.empty
       createRouterState (constantSource 0))) = Some ''openrouter/gpt-4o'' \<and>
   map_option providerID (fst (resolveModel 1000 ''virtual/test'' repeatedPrefixModels Map.empty
       createRouterState (constantSource 0))) = Some ''openrouter'' \<and>
   prefix (''openrouter'' @ ''/'') ''openrouter/gpt-4o''"
  by (simp add: resolveModel_def repeatedPrefixModels_def makeConfig_def selectTargets_def
      resolveProfile_def normalizeModelID_def isInCooldown_def createRouterState_def Let_def)

theorem resolved_model_id_normalized_witness:
  "resolveModel 1000 ''virtual/test'' repeatedPrefixModels Map.empty createRouterState
       (constantSource 0) =
     (Some \<lparr> providerID = ''openrouter'', modelID = ''openrouter/gpt-4o'',
             allTargets = [\<lparr> providerID = ''openrouter'', modelID = ''openrouter/gpt-4o'' \<rparr>] \<rparr>,
      createRouterState, constantSource 0) \<and>
   normalizeModelID ''openrouter'' ''openrouter/openrouter/gpt-4o'' = ''openrouter/gpt-4o'' \<and>
   normalizeModelID ''openrouter'' ''anthropic/claude-sonnet-4-5'' = ''anthropic/claude-sonnet-4-5'' \<and>
   normalizeModelID ''openrouter'' ''openrouter/gpt-4o'' = ''gpt-4o''"
proof -
  have e: "resolveModel 1000 ''virtual/test'' repeatedPrefixModels Map.empty createRouterState
       (constantSource 0) =
     (Some \<lparr> providerID = ''openrouter'', modelID = ''openrouter/gpt-4o'',
             allTargets = [\<lparr> providerID = ''openrouter'', modelID = ''openrouter/gpt-4o'' \<rparr>] \<rparr>,
      createRouterState, constantSource 0)"
    by (simp add: resolveModel_def repeatedPrefixModels_def makeConfig_def selectTargets_def
      resolveProfile_def normalizeModelID_def isInCooldown_def createRouterState_def Let_def)
  have c: "repeatedPrefixModels ''virtual/test'' = Some (makeConfig sequential
          [\<lparr> model = ''openrouter/openrouter/gpt-4o'', provider = ''openrouter'',
             weight = None \<rparr>])"
    by (simp add: repeatedPrefixModels_def)
  from resolved_model_id_normalized [OF e c, of "''openrouter''" "''openrouter/openrouter/gpt-4o''"]
    resolved_model_id_normalized [OF e c, of "''openrouter''" "''anthropic/claude-sonnet-4-5''"]
    resolved_model_id_normalized [OF e c, of "''openrouter''" "''openrouter/gpt-4o''"] e
  show ?thesis by (simp add: makeConfig_def)
qed

section \<open>Retry and backoff executor: attempts, delays, results\<close>
















section \<open>Configuration loader: what is rejected and what is kept\<close>

lemma map_of_mapSet: "map_of (mapSet k v kvs) = (map_of kvs)(k \<mapsto> v)"
  by (induction kvs) auto

lemma loadModels_warns_mono:
  "set warns \<subseteq> set (snd (loadModels ps ms vms warns))"
proof (induction ms arbitrary: vms warns)
  case Nil
  show ?case by simp
next
  case (Cons e ms)
  obtain name m where e: "e = (name, m)" by (cases e)
  show ?case
  proof (cases "noTargets m")
    case True
    have "set (warns @ [warnNoTargets name])
          \<subseteq> set (snd (loadModels ps ms vms (warns @ [warnNoTargets name])))"
      by (rule Cons.IH)
    then show ?thesis using True by (auto simp add: e)
  next
    case False
    let ?w1 = "if unknownProfile ps m
         then warns @ [warnProfileNotFound (nullish (raw_strategy_profile m) []) name]
         else warns"
    have "set ?w1 \<subseteq> set (snd (loadModels ps ms
              (mapSet (''virtual/'' @ name) (storedModel m) vms) ?w1))"
      by (rule Cons.IH)
    moreover have "set warns \<subseteq> set ?w1" by auto
    ultimately show ?thesis using False by (simp add: e Let_def)
  qed
qed

lemma loadModels_warns_noTargets:
  "(name, m) \<in> set ms \<Longrightarrow> noTargets m \<Longrightarrow>
   warnNoTargets name \<in> set (snd (loadModels ps ms vms warns))"
proof (induction ms arbitrary: vms warns)
  case Nil
  then show ?case by simp
next
  case (Cons e ms)
  obtain n' m' where e: "e = (n', m')" by (cases e)
  show ?case
  proof (cases "(name, m) = (n', m')")
    case True
    have "warnNoTargets name \<in> set (warns @ [warnNoTargets name])" by simp
    then have "warnNoTargets name
        \<in> set (snd (loadModels ps ms vms (warns @ [warnNoTargets name])))"
      using loadModels_warns_mono by blast
    then show ?thesis using True Cons.prems(2) by (simp add: e)
  next
    case False
    then have "(name, m) \<in> set ms" using Cons.prems(1) e by auto
    from Cons.IH [OF this Cons.prems(2)] show ?thesis
      by (simp add: e Let_def)
  qed
qed

lemma loadModels_warns_profile:
  "(name, m) \<in> set ms \<Longrightarrow> \<not> noTargets m \<Longrightarrow> unknownProfile ps m \<Longrightarrow>
   warnProfileNotFound (nullish (raw_strategy_profile m) []) name
     \<in> set (snd (loadModels ps ms vms warns))"
proof (induction ms arbitrary: vms warns)
  case Nil
  then show ?case by simp
next
  case (Cons e ms)
  obtain n' m' where e: "e = (n', m')" by (cases e)
  show ?case
  proof (cases "(name, m) = (n', m')")
    case True
    let ?w = "warnProfileNotFound (nullish (raw_strategy_profile m) []) name"
    have "?w \<in> set (warns @ [?w])" by simp
    then have "?w \<in> set (snd (loadModels ps ms
         (mapSet (''virtual/'' @ name) (storedModel m) vms) (warns @ [?w])))"
      using loadModels_warns_mono by blast
    then show ?thesis using True Cons.prems(2,3) by (simp add: e Let_def)
  next
    case False
    then have "(name, m) \<in> set ms" using Cons.prems(1) e by auto
    from Cons.IH [OF this Cons.prems(2,3)] show ?thesis
      by (simp add: e Let_def)
  qed
qed

lemma loadModels_untouched:
  "(\<forall>(n, m) \<in> set ms. ''virtual/'' @ n = k \<longrightarrow> noTargets m) \<Longrightarrow>
   map_of (fst (loadModels ps ms vms warns)) k = map_of vms k"
proof (induction ms arbitrary: vms warns)
  case Nil
  show ?case by simp
next
  case (Cons e ms)
  obtain n' m' where e: "e = (n', m')" by (cases e)
  have rest: "\<forall>(n, m) \<in> set ms. ''virtual/'' @ n = k \<longrightarrow> noTargets m"
    using Cons.prems by simp
  show ?case
  proof (cases "noTargets m'")
    case True
    then show ?thesis using Cons.IH [OF rest] by (simp add: e)
  next
    case False
    then have "''virtual/'' @ n' \<noteq> k" using Cons.prems e by auto
    then show ?thesis using False Cons.IH [OF rest]
      by (simp add: e Let_def map_of_mapSet)
  qed
qed

lemma loadModels_present:
  "(name, m) \<in> set ms \<Longrightarrow> distinct (map fst ms) \<Longrightarrow> \<not> noTargets m \<Longrightarrow>
   map_of (fst (loadModels ps ms vms warns)) (''virtual/'' @ name) = Some (storedModel m)"
proof (induction ms arbitrary: vms warns)
  case Nil
  then show ?case by simp
next
  case (Cons e ms)
  obtain n' m' where e: "e = (n', m')" by (cases e)
  have d: "distinct (map fst ms)" "n' \<notin> fst ` set ms" using Cons.prems(2) e by simp_all
  show ?case
  proof (cases "(name, m) = (n', m')")
    case True
    have "\<forall>(n, x) \<in> set ms. ''virtual/'' @ n = ''virtual/'' @ name \<longrightarrow> noTargets x"
      using d(2) True by force
    from loadModels_untouched [OF this] show ?thesis
      using True Cons.prems(3) by (simp add: e Let_def map_of_mapSet)
  next
    case False
    then have "(name, m) \<in> set ms" using Cons.prems(1) e by auto
    from Cons.IH [OF this d(1) Cons.prems(3)] show ?thesis
      by (simp add: e Let_def)
  qed
qed

lemma validateConfig_missing_field:
  "(modelId, lm) \<in> set (virtualModels cfg) \<Longrightarrow> t \<in> set (l_targets lm) \<Longrightarrow>
   targetIncomplete t \<Longrightarrow> errMissingField modelId \<in> set (validateConfig cfg)"
  by (force simp add: validateConfig_def validateModel_def)

lemma validateConfig_missing_weights:
  "(modelId, lm) \<in> set (virtualModels cfg) \<Longrightarrow> l_strategy lm = ''weighted'' \<Longrightarrow>
   t \<in> set (l_targets lm) \<Longrightarrow> raw_weight t = None \<Longrightarrow>
   errMissingWeights modelId \<in> set (validateConfig cfg)"
  by (force simp add: validateConfig_def validateModel_def Let_def list_all_iff)

text \<open>
  Claim C7, amended. For a document whose model names are distinct, and each of its models:
  a model with a missing or empty target list is left out of the loaded configuration and a
  warning naming it is emitted; every other model is stored under \<open>virtual/<name>\<close>, with
  its strategy defaulted to sequential, whatever else is wrong with it. For a stored model,
  a reference to an unknown strategy profile gives a warning at load, a target with a
  missing or empty model or provider field gives an error line of \<open>validateConfig\<close>, and a
  weighted strategy with a target that has no weight gives an error line of
  \<open>validateConfig\<close>; none of the three removes the model.
\<close>

theorem load_partial_failure:
  assumes "loadConfig raw = (cfg, warns)"
    and "distinct (map fst (nullish (raw_models raw) []))"
    and "(name, m) \<in> set (nullish (raw_models raw) [])"
  shows
   "(noTargets m \<longrightarrow>
       map_of (virtualModels cfg) (''virtual/'' @ name) = None \<and>
       warnNoTargets name \<in> set warns) \<and>
    (\<not> noTargets m \<longrightarrow>
       map_of (virtualModels cfg) (''virtual/'' @ name) = Some (storedModel m)) \<and>
    (\<not> noTargets m \<and> unknownProfile (strategyProfiles cfg) m \<longrightarrow>
       warnProfileNotFound (nullish (raw_strategy_profile m) []) name \<in> set warns) \<and>
    (\<not> noTargets m \<and> (\<exists>t \<in> set (nullish (raw_targets m) []). targetIncomplete t) \<longrightarrow>
       errMissingField (''virtual/'' @ name) \<in> set (validateConfig cfg)) \<and>
    (\<not> noTargets m \<and> strategyOrDefault m = ''weighted'' \<and>
     (\<exists>t \<in> set (nullish (raw_targets m) []). raw_weight t = None) \<longrightarrow>
       errMissingWeights (''virtual/'' @ name) \<in> set (validateConfig cfg))"
proof -
  define ps where "ps = loadProfiles (nullish (raw_strategies raw) []) []"
  define ms where "ms = nullish (raw_models raw) []"
  have cfg: "virtualModels cfg = fst (loadModels ps ms [] [])" "strategyProfiles cfg = ps"
    and warns: "warns = snd (loadModels ps ms [] [])"
    using assms(1) by (auto simp add: loadConfig_def Let_def ps_def ms_def split: prod.splits)
  have d: "distinct (map fst ms)" and i: "(name, m) \<in> set ms"
    using assms(2,3) by (simp_all add: ms_def)
  have a: "noTargets m \<longrightarrow>
       map_of (virtualModels cfg) (''virtual/'' @ name) = None \<and>
       warnNoTargets name \<in> set warns"
  proof
    assume n: "noTargets m"
    have one: "\<And>n' x. (n', x) \<in> set ms \<Longrightarrow> n' = name \<Longrightarrow> noTargets x"
    proof -
      fix n' x assume h: "(n', x) \<in> set ms" "n' = name"
      then have hx: "(name, x) \<in> set ms" by simp
      have "Some x = Some m"
        using map_of_is_SomeI [OF d hx] map_of_is_SomeI [OF d i] by (simp only:)
      then have "x = m" by (simp only: option.inject)
      then show "noTargets x" using n by simp
    qed
    have "\<forall>(n, x) \<in> set ms. ''virtual/'' @ n = ''virtual/'' @ name \<longrightarrow> noTargets x"
      using one by auto
    from loadModels_untouched [OF this, of ps "[]" "[]"]
      loadModels_warns_noTargets [OF i n, of ps "[]" "[]"]
    show "map_of (virtualModels cfg) (''virtual/'' @ name) = None \<and>
       warnNoTargets name \<in> set warns"
      by (simp add: cfg warns)
  qed
  have b: "\<not> noTargets m \<longrightarrow>
       map_of (virtualModels cfg) (''virtual/'' @ name) = Some (storedModel m)"
    using loadModels_present [OF i d, of ps "[]" "[]"] by (simp add: cfg)
  have c: "\<not> noTargets m \<and> unknownProfile (strategyProfiles cfg) m \<longrightarrow>
       warnProfileNotFound (nullish (raw_strategy_profile m) []) name \<in> set warns"
    using loadModels_warns_profile [OF i, of ps "[]" "[]"] by (simp add: cfg warns)
  have mem: "\<not> noTargets m \<Longrightarrow> (''virtual/'' @ name, storedModel m) \<in> set (virtualModels cfg)"
    using b by (simp add: map_of_SomeD)
  have e: "\<not> noTargets m \<and> (\<exists>t \<in> set (nullish (raw_targets m) []). targetIncomplete t) \<longrightarrow>
       errMissingField (''virtual/'' @ name) \<in> set (validateConfig cfg)"
    using mem validateConfig_missing_field [of "''virtual/'' @ name" "storedModel m" cfg]
    by (auto simp add: storedModel_def)
  have f: "\<not> noTargets m \<and> strategyOrDefault m = ''weighted'' \<and>
     (\<exists>t \<in> set (nullish (raw_targets m) []). raw_weight t = None) \<longrightarrow>
       errMissingWeights (''virtual/'' @ name) \<in> set (validateConfig cfg)"
    using mem validateConfig_missing_weights [of "''virtual/'' @ name" "storedModel m" cfg]
    by (auto simp add: storedModel_def)
  show ?thesis using a b c e f by (simp only: simp_thms)
qed

lemmas loader_eval =
  loadConfig_def faultyDocument_def rawModelWith_def soundTarget_def noTargets_def
  unknownProfile_def mapHas_def storedModel_def strategyOrDefault_def nullish_def Let_def
  validateConfig_def validateModel_def targetIncomplete_def falsyString_def

text \<open>
  Claim C7 as stated fails: of the five models of the document, only the one with the empty
  target list is excluded. The model that refers to an unknown profile, the one whose target
  has no provider and the weighted one whose target has no weight are all loaded, each with
  its warning or error line.
\<close>

theorem invalid_entries_kept_counterexample:
  "map fst (virtualModels (fst (loadConfig faultyDocument))) =
     [''virtual/good'', ''virtual/orphan'', ''virtual/partial'', ''virtual/unweighted''] \<and>
   snd (loadConfig faultyDocument) =
     [warnNoTargets ''empty'', warnProfileNotFound ''nope'' ''orphan''] \<and>
   validateConfig (fst (loadConfig faultyDocument)) =
     [errMissingField ''virtual/partial'', errMissingWeights ''virtual/unweighted'']"
  by (simp add: loader_eval)

theorem load_partial_failure_witness:
  "distinct (map fst (nullish (raw_models faultyDocument) [])) \<and>
   map_of (virtualModels (fst (loadConfig faultyDocument))) ''virtual/empty'' = None \<and>
   warnNoTargets ''empty'' \<in> set (snd (loadConfig faultyDocument)) \<and>
   map_of (virtualModels (fst (loadConfig faultyDocument))) ''virtual/good'' =
     Some (storedModel (rawModelWith (Some ''sequential'') None (Some [soundTarget]))) \<and>
   map_of (virtualModels (fst (loadConfig faultyDocument))) ''virtual/orphan'' =
     Some (storedModel (rawModelWith None (Some ''nope'') (Some [soundTarget]))) \<and>
   warnProfileNotFound ''nope'' ''orphan'' \<in> set (snd (loadConfig faultyDocument)) \<and>
   errMissingField ''virtual/partial'' \<in> set (validateConfig (fst (loadConfig faultyDocument))) \<and>
   errMissingWeights ''virtual/unweighted''
     \<in> set (validateConfig (fst (loadConfig faultyDocument)))"
proof -
  have l: "loadConfig faultyDocument =
      (fst (loadConfig faultyDocument), snd (loadConfig faultyDocument))"
    by simp
  have d: "distinct (map fst (nullish (raw_models faultyDocument) []))"
    by (simp add: faultyDocument_def nullish_def)
  have ps: "strategyProfiles (fst (loadConfig faultyDocument)) = []"
    by (simp add: loadConfig_def faultyDocument_def nullish_def Let_def split: prod.splits)
  have i1: "(''empty'', rawModelWith (Some ''sequential'') None (Some []))
      \<in> set (nullish (raw_models faultyDocument) [])"
    and i2: "(''good'', rawModelWith (Some ''sequential'') None (Some [soundTarget]))
      \<in> set (nullish (raw_models faultyDocument) [])"
    and i3: "(''orphan'', rawModelWith None (Some ''nope'') (Some [soundTarget]))
      \<in> set (nullish (raw_models faultyDocument) [])"
    and i4: "(''partial'', rawModelWith (Some ''sequential'') None
               (Some [soundTarget\<lparr> raw_provider := None \<rparr>]))
      \<in> set (nullish (raw_models faultyDocument) [])"
    and i5: "(''unweighted'', rawModelWith (Some ''weighted'') None (Some [soundTarget]))
      \<in> set (nullish (raw_models faultyDocument) [])"
    by (simp_all add: faultyDocument_def nullish_def)
  from load_partial_failure [OF l d i1] load_partial_failure [OF l d i2]
    load_partial_failure [OF l d i3] load_partial_failure [OF l d i4]
    load_partial_failure [OF l d i5] d
  show ?thesis
    by (simp add: ps rawModelWith_def soundTarget_def noTargets_def unknownProfile_def mapHas_def
        strategyOrDefault_def nullish_def targetIncomplete_def falsyString_def)
qed

section \<open>Fallback cursor: what a failure report does\<close>

lemmas hook_eval =
  chatMessage_def eventHook_def reportFailure_def advanceCursor_def noteFailure_def
  shouldFallbackForError_def failure503_def afterChat_def afterEvent_def freshPlugin_def
  workBuild_def workTargetA_def workTargetB_def selectTargets_def resolveProfile_def
  mergeWithProfile_def normalizeModelID_def isInCooldown_def setCooldown_def
  recordFailure_def recordFallback_def getOrCreateMetrics_def createRouterState_def
  nullish_def Let_def

lemma afterDispatch_eq:
  "afterDispatch =
     freshPlugin\<lparr> sessionFallbackCursor := [''sess-1'' \<mapsto> 0],
                  sessionVirtualModel := [''sess-1'' \<mapsto> ''virtual/work-build''] \<rparr>"
  unfolding afterDispatch_def by (simp add: hook_eval)

text \<open>
  Claim C1 as stated fails twice. After the dispatch and two failure reports the list of
  two targets is exhausted and the session's entry is deleted; a third failure report is
  not a no-op: it counts a second failure of the first target, falls back to the second
  target and stores cursor 1. And when the only remaining target is in cooldown, the
  report leaves the entry at the next index instead of deleting it.
\<close>

theorem cursor_restart_counterexample:
  "fst (eventHook 3000 (failure503 ''sess-1'') afterFirstFailure (constantSource 0)) =
     Inr Exhausted \<and>
   sessionFallbackCursor afterSecondFailure ''sess-1'' = None \<and>
   fst (eventHook 4000 (failure503 ''sess-1'') afterSecondFailure (constantSource 0)) =
     Inr (FellBack \<lparr> providerID = ''openrouter'', modelID = ''anthropic/claude-sonnet-4-5'' \<rparr>) \<and>
   sessionFallbackCursor afterThirdFailure ''sess-1'' = Some 1 \<and>
   map_option failures (metrics (routerState afterSecondFailure) ''anthropic/claude-sonnet-4-6'')
     = Some 1 \<and>
   map_option failures (metrics (routerState afterThirdFailure) ''anthropic/claude-sonnet-4-6'')
     = Some 2 \<and>
   fst (eventHook 2000 (failure503 ''sess-2'') secondCooling (constantSource 0)) =
     Inr AllRemainingInCooldown \<and>
   sessionFallbackCursor
     (afterEvent (eventHook 2000 (failure503 ''sess-2'') secondCooling (constantSource 0)))
     ''sess-2'' = Some 1"
  unfolding afterThirdFailure_def afterSecondFailure_def afterFirstFailure_def afterDispatch_eq
    secondCooling_def
  by (simp add: hook_eval)

lemma isInCooldown_True: "isInCooldown now k st = (True, st1) \<Longrightarrow> st1 = st"
  by (auto simp add: isInCooldown_def split: option.splits if_splits)

lemma scanTargets_result:
  "scanTargets now ts i st = (r, st') \<Longrightarrow>
   (r = None \<longrightarrow> (\<forall>j < length ts. cooledDown now st (ts ! j))) \<and>
   (\<forall>k pm. r = Some (k, pm) \<longrightarrow>
      i \<le> k \<and> k - i < length ts \<and> \<not> cooledDown now st (ts ! (k - i)) \<and>
      (\<forall>j < k - i. cooledDown now st (ts ! j)) \<and>
      pm = \<lparr> providerID = provider (ts ! (k - i)),
             modelID = normalizeModelID (provider (ts ! (k - i))) (model (ts ! (k - i))) \<rparr>)"
proof (induction ts arbitrary: i)
  case Nil
  then show ?case by simp
next
  case (Cons t ts)
  let ?key = "provider t @ ''/'' @ normalizeModelID (provider t) (model t)"
  obtain b st1 where c: "isInCooldown now ?key st = (b, st1)"
    by (cases "isInCooldown now ?key st")
  have cd: "cooledDown now st t = b"
    using c by (simp add: cooledDown_def modelKeyOf_def)
  show ?case
  proof (cases b)
    case False
    then have r: "r = Some (i, \<lparr> providerID = provider t,
                              modelID = normalizeModelID (provider t) (model t) \<rparr>)"
      using Cons.prems c by (simp add: Let_def)
    show ?thesis using False cd by (simp add: r)
  next
    case True
    then have "isInCooldown now ?key st = (True, st1)" using c by simp
    then have st1: "st1 = st" by (rule isInCooldown_True)
    have rest: "scanTargets now ts (i + 1) st = (r, st')"
      using Cons.prems c True st1 by (simp add: Let_def)
    note ih = Cons.IH [OF rest]
    have none: "r = None \<longrightarrow> (\<forall>j < length (t # ts). cooledDown now st ((t # ts) ! j))"
    proof (intro impI allI)
      fix j assume "r = None" "j < length (t # ts)"
      then show "cooledDown now st ((t # ts) ! j)"
        using ih cd True by (cases j) simp_all
    qed
    have some: "\<forall>k pm. r = Some (k, pm) \<longrightarrow>
      i \<le> k \<and> k - i < length (t # ts) \<and> \<not> cooledDown now st ((t # ts) ! (k - i)) \<and>
      (\<forall>j < k - i. cooledDown now st ((t # ts) ! j)) \<and>
      pm = \<lparr> providerID = provider ((t # ts) ! (k - i)),
             modelID = normalizeModelID (provider ((t # ts) ! (k - i)))
                         (model ((t # ts) ! (k - i))) \<rparr>"
    proof (intro allI impI)
      fix k pm assume e: "r = Some (k, pm)"
      with ih have k: "i + 1 \<le> k" "k - (i + 1) < length ts"
        "\<not> cooledDown now st (ts ! (k - (i + 1)))"
        "\<forall>j < k - (i + 1). cooledDown now st (ts ! j)"
        "pm = \<lparr> providerID = provider (ts ! (k - (i + 1))),
             modelID = normalizeModelID (provider (ts ! (k - (i + 1))))
                         (model (ts ! (k - (i + 1)))) \<rparr>"
        by simp_all
      have ki: "k - i = Suc (k - (i + 1))" using k(1) by simp
      have before: "\<forall>j < k - i. cooledDown now st ((t # ts) ! j)"
      proof (intro allI impI)
        fix j assume "j < k - i"
        then show "cooledDown now st ((t # ts) ! j)"
          using k(4) cd True ki by (cases j) simp_all
      qed
      show "i \<le> k \<and> k - i < length (t # ts) \<and> \<not> cooledDown now st ((t # ts) ! (k - i)) \<and>
        (\<forall>j < k - i. cooledDown now st ((t # ts) ! j)) \<and>
        pm = \<lparr> providerID = provider ((t # ts) ! (k - i)),
               modelID = normalizeModelID (provider ((t # ts) ! (k - i)))
                           (model ((t # ts) ! (k - i))) \<rparr>"
        using k before by (simp add: ki)
    qed
    show ?thesis using none some by (simp only: simp_thms)
  qed
qed

lemma scan_from:
  assumes "n \<le> length ts" "scanTargets now (drop n ts) n st = (r, st')"
  shows "(r = None \<longrightarrow> (\<forall>i. n \<le> i \<and> i < length ts \<longrightarrow> cooledDown now st (ts ! i))) \<and>
   (\<forall>k pm. r = Some (k, pm) \<longrightarrow>
      n \<le> k \<and> k < length ts \<and> \<not> cooledDown now st (ts ! k) \<and>
      (\<forall>i. n \<le> i \<and> i < k \<longrightarrow> cooledDown now st (ts ! i)) \<and>
      pm = \<lparr> providerID = provider (ts ! k),
             modelID = normalizeModelID (provider (ts ! k)) (model (ts ! k)) \<rparr>)"
proof -
  note s = scanTargets_result [OF assms(2)]
  have nth: "\<And>j. j < length ts - n \<Longrightarrow> drop n ts ! j = ts ! (n + j)"
    using assms(1) by simp
  have none: "r = None \<longrightarrow> (\<forall>i. n \<le> i \<and> i < length ts \<longrightarrow> cooledDown now st (ts ! i))"
  proof (intro impI allI)
    fix i assume r: "r = None" and i: "n \<le> i \<and> i < length ts"
    then have "i - n < length (drop n ts)" by auto
    then have "cooledDown now st (drop n ts ! (i - n))" using s r by blast
    then show "cooledDown now st (ts ! i)" using i nth [of "i - n"] by simp
  qed
  have some: "\<forall>k pm. r = Some (k, pm) \<longrightarrow>
      n \<le> k \<and> k < length ts \<and> \<not> cooledDown now st (ts ! k) \<and>
      (\<forall>i. n \<le> i \<and> i < k \<longrightarrow> cooledDown now st (ts ! i)) \<and>
      pm = \<lparr> providerID = provider (ts ! k),
             modelID = normalizeModelID (provider (ts ! k)) (model (ts ! k)) \<rparr>"
  proof (intro allI impI)
    fix k pm assume e: "r = Some (k, pm)"
    with s have k: "n \<le> k" "k - n < length (drop n ts)"
      "\<not> cooledDown now st (drop n ts ! (k - n))"
      "\<forall>j < k - n. cooledDown now st (drop n ts ! j)"
      "pm = \<lparr> providerID = provider (drop n ts ! (k - n)),
             modelID = normalizeModelID (provider (drop n ts ! (k - n)))
                         (model (drop n ts ! (k - n))) \<rparr>"
      by simp_all
    have kl: "k < length ts" using k(1,2) by simp
    have at: "drop n ts ! (k - n) = ts ! k" using nth [of "k - n"] k(1) kl by simp
    have before: "\<forall>i. n \<le> i \<and> i < k \<longrightarrow> cooledDown now st (ts ! i)"
    proof (intro allI impI)
      fix i assume i: "n \<le> i \<and> i < k"
      then have "i - n < k - n" by auto
      then have "cooledDown now st (drop n ts ! (i - n))" using k(4) by blast
      then show "cooledDown now st (ts ! i)" using i kl nth [of "i - n"] by simp
    qed
    show "n \<le> k \<and> k < length ts \<and> \<not> cooledDown now st (ts ! k) \<and>
      (\<forall>i. n \<le> i \<and> i < k \<longrightarrow> cooledDown now st (ts ! i)) \<and>
      pm = \<lparr> providerID = provider (ts ! k),
             modelID = normalizeModelID (provider (ts ! k)) (model (ts ! k)) \<rparr>"
      using k(1,3,5) kl before by (simp only: at simp_thms)
  qed
  show ?thesis using none some by (simp only: simp_thms)
qed

lemma advanceCursor_cases:
  assumes "advanceCursor now sid ts c st2 ps = (outcome, ps')"
  shows
   "(length ts \<le> c + 1 \<longrightarrow>
       outcome = Exhausted \<and> sessionFallbackCursor ps' sid = None) \<and>
    (c + 1 < length ts \<and> (\<forall>i. c + 1 \<le> i \<and> i < length ts \<longrightarrow> cooledDown now st2 (ts ! i)) \<longrightarrow>
       outcome = AllRemainingInCooldown \<and> sessionFallbackCursor ps' sid = Some (c + 1)) \<and>
    (\<forall>k. c + 1 \<le> k \<and> k < length ts \<and> \<not> cooledDown now st2 (ts ! k) \<and>
         (\<forall>i. c + 1 \<le> i \<and> i < k \<longrightarrow> cooledDown now st2 (ts ! i)) \<longrightarrow>
       outcome = FellBack \<lparr> providerID = provider (ts ! k),
                             modelID = normalizeModelID (provider (ts ! k)) (model (ts ! k)) \<rparr> \<and>
       sessionFallbackCursor ps' sid = Some k) \<and>
    sessionVirtualModel ps' = sessionVirtualModel ps \<and>
    (\<forall>other. other \<noteq> sid \<longrightarrow> sessionFallbackCursor ps' other = sessionFallbackCursor ps other)"
proof (cases "length ts \<le> c + 1")
  case True
  then show ?thesis using assms by (auto simp add: advanceCursor_def Let_def)
next
  case False
  then have n: "c + 1 \<le> length ts" "c + 1 < length ts" by simp_all
  obtain r st3 where sc: "scanTargets now (drop (c + 1) ts) (c + 1) st2 = (r, st3)"
    by (cases "scanTargets now (drop (c + 1) ts) (c + 1) st2")
  note s = scan_from [OF n(1) sc]
  show ?thesis
  proof (cases r)
    case None
    then have o: "outcome = AllRemainingInCooldown"
      "ps' = ps\<lparr> routerState := st3,
                 sessionFallbackCursor := (sessionFallbackCursor ps)(sid \<mapsto> c + 1) \<rparr>"
      using assms False sc by (auto simp add: advanceCursor_def Let_def)
    have all: "\<forall>i. c + 1 \<le> i \<and> i < length ts \<longrightarrow> cooledDown now st2 (ts ! i)"
      using s None by simp
    show ?thesis using False all by (auto simp add: o)
  next
    case (Some p)
    obtain k' pm where p: "p = (k', pm)" by (cases p)
    have o: "outcome = FellBack pm"
      "ps' = ps\<lparr> routerState := st3,
                 sessionFallbackCursor := (sessionFallbackCursor ps)(sid \<mapsto> k') \<rparr>"
      using assms False sc Some p by (auto simp add: advanceCursor_def Let_def)
    from s Some p have k': "c + 1 \<le> k'" "k' < length ts" "\<not> cooledDown now st2 (ts ! k')"
      "\<forall>i. c + 1 \<le> i \<and> i < k' \<longrightarrow> cooledDown now st2 (ts ! i)"
      "pm = \<lparr> providerID = provider (ts ! k'),
              modelID = normalizeModelID (provider (ts ! k')) (model (ts ! k')) \<rparr>"
      by simp_all
    have uniq: "\<And>k. c + 1 \<le> k \<and> k < length ts \<and> \<not> cooledDown now st2 (ts ! k) \<and>
         (\<forall>i. c + 1 \<le> i \<and> i < k \<longrightarrow> cooledDown now st2 (ts ! i)) \<Longrightarrow> k = k'"
    proof -
      fix k assume h: "c + 1 \<le> k \<and> k < length ts \<and> \<not> cooledDown now st2 (ts ! k) \<and>
         (\<forall>i. c + 1 \<le> i \<and> i < k \<longrightarrow> cooledDown now st2 (ts ! i))"
      have "\<not> k < k'" using h k'(4) by blast
      moreover have "\<not> k' < k" using h k'(1,3) by blast
      ultimately show "k = k'" by simp
    qed
    have notall: "\<not> (\<forall>i. c + 1 \<le> i \<and> i < length ts \<longrightarrow> cooledDown now st2 (ts ! i))"
      using k'(1,2,3) by blast
    show ?thesis using False notall uniq k'(5) by (auto simp add: o)
  qed
qed

text \<open>
  Claim C1, amended. A failure report that passes the guards of the hook (a session bound
  to a loaded virtual model, an error that triggers fallback) and whose cooldown string
  parses starts from the stored cursor of the session, or from 0 when the session has no
  cursor entry. With \<open>c\<close> that index and the ordered target list of this call: when
  \<open>c + 1\<close> is beyond the list, the cursor entry is deleted and exhaustion is the outcome;
  when \<open>c + 1\<close> is in the list and every target from there on is in cooldown, the entry is
  set to \<open>c + 1\<close> and kept; otherwise the entry is set to the first index from \<open>c + 1\<close> on
  whose target is not in cooldown and that target, with its normalized model id, is
  exposed. Cooldown is judged in the state after the failure of the current target has
  been recorded. The session's bound model and the cursors of other sessions stay as
  they were. A session whose entry was deleted is treated like one at index 0.
\<close>

theorem failure_report_cursor:
  assumes "sid \<noteq> []" "sessionVirtualModel ps sid = Some vmid" "vmid \<noteq> []"
    and "loadedModels ps vmid = Some config"
    and "shouldFallbackForError e config (loadedProfiles ps)"
    and "selectTargets vmid config (routerState ps) rs = (ts, st1, rs1)"
    and "noteFailure now ts (nullish (sessionFallbackCursor ps sid) 0) config
           (loadedProfiles ps) st1 = (Inr (), st2)"
    and "eventHook now (SessionErrorEvent (Some sid) (Some e)) ps rs = (res, ps', rs')"
  shows
   "(length ts \<le> nullish (sessionFallbackCursor ps sid) 0 + 1 \<longrightarrow>
       res = Inr Exhausted \<and> sessionFallbackCursor ps' sid = None) \<and>
    (nullish (sessionFallbackCursor ps sid) 0 + 1 < length ts \<and>
     (\<forall>i. nullish (sessionFallbackCursor ps sid) 0 + 1 \<le> i \<and> i < length ts \<longrightarrow>
          cooledDown now st2 (ts ! i)) \<longrightarrow>
       res = Inr AllRemainingInCooldown \<and>
       sessionFallbackCursor ps' sid = Some (nullish (sessionFallbackCursor ps sid) 0 + 1)) \<and>
    (\<forall>k. nullish (sessionFallbackCursor ps sid) 0 + 1 \<le> k \<and> k < length ts \<and>
         \<not> cooledDown now st2 (ts ! k) \<and>
         (\<forall>i. nullish (sessionFallbackCursor ps sid) 0 + 1 \<le> i \<and> i < k \<longrightarrow>
              cooledDown now st2 (ts ! i)) \<longrightarrow>
       res = Inr (FellBack \<lparr> providerID = provider (ts ! k),
                     modelID = normalizeModelID (provider (ts ! k)) (model (ts ! k)) \<rparr>) \<and>
       sessionFallbackCursor ps' sid = Some k) \<and>
    sessionVirtualModel ps' = sessionVirtualModel ps \<and>
    (\<forall>other. other \<noteq> sid \<longrightarrow> sessionFallbackCursor ps' other = sessionFallbackCursor ps other)"
proof -
  define c where "c = nullish (sessionFallbackCursor ps sid) 0"
  obtain outcome ps1 where adv: "advanceCursor now sid ts c st2 ps = (outcome, ps1)"
    by (cases "advanceCursor now sid ts c st2 ps")
  have "eventHook now (SessionErrorEvent (Some sid) (Some e)) ps rs =
        reportFailure now sid vmid config ps rs"
    using assms(1-5) by (simp add: eventHook_def)
  also have "\<dots> = (Inr outcome, ps1, rs1)"
    using assms(6,7) adv by (simp add: reportFailure_def Let_def c_def)
  finally have r: "res = Inr outcome" "ps' = ps1" using assms(8) by simp_all
  show ?thesis
    using advanceCursor_cases [OF adv] unfolding c_def r by simp
qed

theorem failure_report_cursor_witness:
  "sessionVirtualModel afterDispatch ''sess-1'' = Some ''virtual/work-build'' \<and>
   loadedModels afterDispatch ''virtual/work-build'' = Some workBuild \<and>
   sessionFallbackCursor afterDispatch ''sess-1'' = Some 0 \<and>
   shouldFallbackForError \<lparr> err_name = None, err_statusCode = Some 503 \<rparr> workBuild
     (loadedProfiles afterDispatch) \<and>
   fst (eventHook 2000 (failure503 ''sess-1'') afterDispatch (constantSource 0)) =
     Inr (FellBack \<lparr> providerID = ''openrouter'', modelID = ''anthropic/claude-sonnet-4-5'' \<rparr>) \<and>
   sessionFallbackCursor afterFirstFailure ''sess-1'' = Some 1 \<and>
   sessionVirtualModel afterFirstFailure = sessionVirtualModel afterDispatch"
proof -
  let ?e = "\<lparr> err_name = None, err_statusCode = Some 503 \<rparr>"
  let ?run = "eventHook 2000 (SessionErrorEvent (Some ''sess-1'') (Some ?e)) afterDispatch
      (constantSource 0)"
  let ?st2 = "snd (noteFailure 2000 [workTargetA, workTargetB] 0 workBuild
      (loadedProfiles afterDispatch) createRouterState)"
  have h1: "''sess-1'' \<noteq> []" and h3: "''virtual/work-build'' \<noteq> []" by simp_all
  have h2: "sessionVirtualModel afterDispatch ''sess-1'' = Some ''virtual/work-build''"
    and h4: "loadedModels afterDispatch ''virtual/work-build'' = Some workBuild"
    and c0: "sessionFallbackCursor afterDispatch ''sess-1'' = Some 0"
    by (simp_all add: afterDispatch_eq freshPlugin_def)
  have h5: "shouldFallbackForError ?e workBuild (loadedProfiles afterDispatch)"
    by (simp add: afterDispatch_eq hook_eval)
  have h6: "selectTargets ''virtual/work-build'' workBuild (routerState afterDispatch)
      (constantSource 0) = ([workTargetA, workTargetB], createRouterState, constantSource 0)"
    by (simp add: afterDispatch_eq freshPlugin_def selectTargets_def workBuild_def)
  have h7: "noteFailure 2000 [workTargetA, workTargetB]
      (nullish (sessionFallbackCursor afterDispatch ''sess-1'') 0) workBuild
      (loadedProfiles afterDispatch) createRouterState = (Inr (), ?st2)"
    by (simp add: c0 nullish_def noteFailure_def setCooldown_def mergeWithProfile_def
        resolveProfile_def workBuild_def Let_def)
  have h8: "?run = (fst ?run, fst (snd ?run), snd (snd ?run))" by simp
  have free: "\<not> cooledDown 2000 ?st2 ([workTargetA, workTargetB] ! 1)"
    by (simp add: cooledDown_def modelKeyOf_def hook_eval)
  note T = failure_report_cursor [OF h1 h2 h3 h4 h5 h6 h7 h8]
  have k: "fst ?run = Inr (FellBack \<lparr> providerID = provider ([workTargetA, workTargetB] ! 1),
               modelID = normalizeModelID (provider ([workTargetA, workTargetB] ! 1))
                           (model ([workTargetA, workTargetB] ! 1)) \<rparr>) \<and>
           sessionFallbackCursor (fst (snd ?run)) ''sess-1'' = Some 1"
    using T [THEN conjunct2, THEN conjunct2, THEN conjunct1, rule_format, of 1] free
    by (simp add: c0 nullish_def)
  have v: "sessionVirtualModel (fst (snd ?run)) = sessionVirtualModel afterDispatch"
    using T [THEN conjunct2, THEN conjunct2, THEN conjunct2, THEN conjunct1] .
  note t = k v
  show ?thesis
    using t h2 h4 c0 h5
    by (simp add: afterFirstFailure_def afterEvent_def failure503_def workTargetB_def
        normalizeModelID_def)
qed

end
